theory Spec2Isabelle
  imports Main "HOL-Library.Word"
begin

unbundle bit_operations_syntax

section \<open>udpcan: a CAN <-> UDP converter\<close>

text \<open>
  A shallow embedding of \<^verbatim>\<open>udpcan.c\<close>. The codec (\<^verbatim>\<open>pack_can_frame\<close>,
  \<^verbatim>\<open>unpack_can_frame\<close>), the two forwarding operations (\<^verbatim>\<open>udp_to_can\<close>,
  \<^verbatim>\<open>can_to_udp\<close>) and the polling loop of \<^verbatim>\<open>main\<close> are translated one by one.
  System calls are answered by an explicit environment, output (lines printed,
  frames and datagrams sent) is an explicit list of events, and a failed \<^verbatim>\<open>assert\<close> or a
  call of \<^verbatim>\<open>err\<close> is a value of type \<open>failure\<close>.
\<close>

subsection \<open>Machine types\<close>

type_synonym byte = "8 word"
type_synonym u32 = "32 word"

text \<open>\<^verbatim>\<open>size_t\<close> and \<^verbatim>\<open>ssize_t\<close> on a 64-bit Linux. Both are 64-bit patterns; \<open><\<close> and
  \<open>\<le>\<close> on words compare unsigned, which is how C compares an \<^verbatim>\<open>ssize_t\<close> with a
  \<^verbatim>\<open>size_t\<close> (the signed operand is converted).\<close>

type_synonym size_t = "64 word"
type_synonym ssize_t = "64 word"
type_synonym errno = nat

datatype failure = Assertion_failed | Out_of_bounds_read | Exit_failure

subsection \<open>Byte order\<close>

datatype byte_order = Little_endian | Big_endian

text \<open>The four bytes of a 32-bit value, most significant first, and back.\<close>

definition be_bytes :: "u32 \<Rightarrow> byte list" where
  "be_bytes x = [ucast (drop_bit 24 x), ucast (drop_bit 16 x), ucast (drop_bit 8 x), ucast x]"

definition be_word :: "byte list \<Rightarrow> u32" where
  "be_word bs = push_bit 24 (ucast (bs ! 0)) OR push_bit 16 (ucast (bs ! 1))
                OR push_bit 8 (ucast (bs ! 2)) OR ucast (bs ! 3)"

text \<open>How the host keeps a \<^verbatim>\<open>uint32_t\<close> in memory, and how it reads one.\<close>

definition store32 :: "byte_order \<Rightarrow> u32 \<Rightarrow> byte list" where
  "store32 bo x = (case bo of Big_endian \<Rightarrow> be_bytes x | Little_endian \<Rightarrow> rev (be_bytes x))"

definition load32 :: "byte_order \<Rightarrow> byte list \<Rightarrow> u32" where
  "load32 bo bs = (case bo of Big_endian \<Rightarrow> be_word bs | Little_endian \<Rightarrow> be_word (rev bs))"

text \<open>\<^verbatim>\<open>htonl\<close> and \<^verbatim>\<open>ntohl\<close> of \<^verbatim>\<open><arpa/inet.h>\<close>: the identity on a big-endian host, a
  swap of the four bytes on a little-endian one.\<close>

definition bswap32 :: "u32 \<Rightarrow> u32" where
  "bswap32 x = drop_bit 24 (x AND 0xff000000) OR drop_bit 8 (x AND 0x00ff0000)
               OR push_bit 8 (x AND 0x0000ff00) OR push_bit 24 (x AND 0x000000ff)"

definition htonl :: "byte_order \<Rightarrow> u32 \<Rightarrow> u32" where
  "htonl bo x = (case bo of Big_endian \<Rightarrow> x | Little_endian \<Rightarrow> bswap32 x)"

definition ntohl :: "byte_order \<Rightarrow> u32 \<Rightarrow> u32" where
  "ntohl bo x = (case bo of Big_endian \<Rightarrow> x | Little_endian \<Rightarrow> bswap32 x)"

subsection \<open>Frames\<close>

text \<open>\<^verbatim>\<open>struct can_frame\<close> of \<^verbatim>\<open><linux/can.h>\<close>: the fields the program reads and writes.
  \<open>data\<close> is the array \<^verbatim>\<open>data[8]\<close>; \<open>can_dlc\<close> says how many of its bytes are payload.\<close>

record can_frame =
  can_id :: u32
  can_dlc :: byte
  data :: "byte list"

definition PACKED_CAN_FRAME_MAX_DATA_SIZE :: nat where
  "PACKED_CAN_FRAME_MAX_DATA_SIZE = 8"

text \<open>\<^verbatim>\<open>struct packed_can_frame\<close>: a \<^verbatim>\<open>uint32_t\<close> and eight bytes, twelve bytes in memory
  with no padding.\<close>

record packed_can_frame =
  p_can_id :: u32
  p_data :: "byte list"

definition sizeof_packed_can_frame :: size_t where
  "sizeof_packed_can_frame = 4 + of_nat PACKED_CAN_FRAME_MAX_DATA_SIZE"

definition PACKED_CAN_FRAME_HDR_SIZE :: size_t where
  "PACKED_CAN_FRAME_HDR_SIZE = sizeof_packed_can_frame - of_nat PACKED_CAN_FRAME_MAX_DATA_SIZE"

text \<open>The memory image of a packed frame on a host of byte order \<open>bo\<close>: what \<^verbatim>\<open>send\<close> reads
  from the struct and what \<^verbatim>\<open>recv\<close> writes into it.\<close>

definition bytes_of_packed :: "byte_order \<Rightarrow> packed_can_frame \<Rightarrow> byte list" where
  "bytes_of_packed bo pf = store32 bo (p_can_id pf) @ p_data pf"

definition packed_of_bytes :: "byte_order \<Rightarrow> byte list \<Rightarrow> packed_can_frame" where
  "packed_of_bytes bo bs = \<lparr>p_can_id = load32 bo (take 4 bs), p_data = drop 4 bs\<rparr>"

text \<open>\<^verbatim>\<open>memcpy(dst, src, n)\<close> on arrays kept as lists: the first \<open>n\<close> bytes of \<open>dst\<close> are
  replaced. Both callers assert \<open>n \<le> 8\<close> first and both arrays have eight bytes.\<close>

definition memcpy :: "byte list \<Rightarrow> byte list \<Rightarrow> nat \<Rightarrow> byte list" where
  "memcpy dst src n = take n src @ drop n dst"

subsection \<open>The codec\<close>

text \<open>\<^verbatim>\<open>pack_can_frame\<close>. The third argument is the struct the caller passes in, written in
  place; the result is the struct after the call and \<^verbatim>\<open>*packed_frame_size\<close>.\<close>

definition pack_can_frame ::
    "byte_order \<Rightarrow> can_frame \<Rightarrow> packed_can_frame \<Rightarrow> failure + packed_can_frame \<times> size_t" where
  "pack_can_frame bo frame packed_frame =
     (let packed_frame = packed_frame\<lparr>p_can_id := htonl bo (can_id frame)\<rparr> in
      if \<not> unat (can_dlc frame) \<le> PACKED_CAN_FRAME_MAX_DATA_SIZE then Inl Assertion_failed
      else Inr (packed_frame\<lparr>p_data :=
                   memcpy (p_data packed_frame) (data frame) (unat (can_dlc frame))\<rparr>,
                ucast (can_dlc frame) + PACKED_CAN_FRAME_HDR_SIZE))"

text \<open>\<^verbatim>\<open>unpack_can_frame\<close>. The last argument is the caller's \<^verbatim>\<open>struct can_frame\<close> before
  the call. \<open>data_size\<close> is a \<^verbatim>\<open>size_t\<close>: the subtraction wraps around below four.\<close>

definition unpack_can_frame ::
    "byte_order \<Rightarrow> packed_can_frame \<Rightarrow> size_t \<Rightarrow> can_frame \<Rightarrow> failure + can_frame" where
  "unpack_can_frame bo packed_frame packed_frame_size frame =
     (if \<not> packed_frame_size \<le> sizeof_packed_can_frame then Inl Assertion_failed
      else let data_size = packed_frame_size - PACKED_CAN_FRAME_HDR_SIZE in
        if \<not> data_size \<le> of_nat PACKED_CAN_FRAME_MAX_DATA_SIZE then Inl Assertion_failed
        else Inr (frame\<lparr>can_id := ntohl bo (p_can_id packed_frame),
                        can_dlc := ucast data_size,
                        data := memcpy (data frame) (p_data packed_frame) (unat data_size)\<rparr>))"

subsection \<open>Rendering for the log\<close>

definition hex_digit :: "nat \<Rightarrow> char" where
  "hex_digit d = ''0123456789ABCDEF'' ! d"

fun hex_digits :: "nat \<Rightarrow> string" where
  "hex_digits n = (if n < 16 then [hex_digit n] else hex_digits (n div 16) @ [hex_digit (n mod 16)])"

declare hex_digits.simps [simp del]

text \<open>The conversion \<^verbatim>\<open>%.pX\<close>: upper-case hexadecimal, at least \<open>p\<close> digits.\<close>

definition printf_X :: "nat \<Rightarrow> nat \<Rightarrow> string" where
  "printf_X p n = (let ds = hex_digits n in replicate (p - length ds) (CHR ''0'') @ ds)"

text \<open>The loop of \<^verbatim>\<open>str_can_frame\<close> from index \<open>i\<close>. Reading \<^verbatim>\<open>data[i]\<close> past the array is a
  failure of the model. With at most eight bytes the text has at most 25 characters, so
  \<^verbatim>\<open>snprintf\<close> never cuts it at the 32 bytes of the static buffer; the buffer is rewritten
  from its start by every call, so the result depends on the frame alone.\<close>

function str_can_frame_data :: "can_frame \<Rightarrow> nat \<Rightarrow> failure + string" where
  "str_can_frame_data frame i =
     (if i < unat (can_dlc frame) then
        (if \<not> i < length (data frame) then Inl Out_of_bounds_read
         else case str_can_frame_data frame (Suc i) of
                Inl f \<Rightarrow> Inl f
              | Inr s \<Rightarrow> Inr (printf_X 2 (unat (data frame ! i)) @ s))
      else Inr [])"
  by pat_completeness auto
termination
  by (relation "measure (\<lambda>(frame, i). unat (can_dlc frame) - i)") auto

declare str_can_frame_data.simps [simp del]

definition str_can_frame :: "can_frame \<Rightarrow> failure + string" where
  "str_can_frame frame =
     (case str_can_frame_data frame 0 of
        Inl f \<Rightarrow> Inl f
      | Inr s \<Rightarrow> Inr (printf_X 3 (unat (can_id frame)) @ ''#'' @ s))"

record config =
  can_ifname :: string
  in_port :: string
  out_host :: string
  out_port :: string

text \<open>\<^verbatim>\<open>str_config\<close>: \<^verbatim>\<open>snprintf\<close> into 256 bytes keeps at most 255 characters.\<close>

definition str_config :: "config \<Rightarrow> string" where
  "str_config c = take 255 (can_ifname c @ '':'' @ in_port c @ '':'' @ out_host c @ '':'' @ out_port c)"

record connection =
  config :: config
  can_sfd :: int
  in_sfd :: int
  out_sfd :: int

subsection \<open>Events and the environment\<close>

datatype direction = UDP_to_CAN | CAN_to_UDP

datatype message =
    Recv_failed errno
  | Message_too_short ssize_t size_t
  | Message_truncated ssize_t size_t
  | Frame_text string
  | Send_failed errno

text \<open>What a call does to the outside: a line printed (the connection's config string, the
  direction and the message), a frame written to a CAN socket, a datagram sent on a UDP
  socket.\<close>

datatype event =
    Printf string direction message
  | Send_can int can_frame
  | Send_udp int "byte list"

datatype udp_recv_result = Recv_error errno | Recv_datagram "byte list"
datatype can_recv_result = Can_recv_error errno | Can_recv_frame can_frame
datatype send_result = Send_error errno | Send_ok

text \<open>What the system answers during one call of a forwarding operation, and what the
  call finds in its uninitialised locals.\<close>

record syscalls =
  udp_recv :: udp_recv_result
  can_recv :: can_recv_result
  send_res :: send_result
  stack_packed_frame :: packed_can_frame
  stack_frame :: can_frame

text \<open>\<^verbatim>\<open>recv\<close> on the UDP socket with \<^verbatim>\<open>MSG_TRUNC\<close>: the result is the length of the
  datagram even when it is longer than the buffer; the buffer takes its first twelve bytes
  at most and keeps its old content beyond the datagram. The result is the return value,
  \<^verbatim>\<open>errno\<close> and the buffer.\<close>

definition recv_udp ::
    "byte_order \<Rightarrow> udp_recv_result \<Rightarrow> packed_can_frame \<Rightarrow> ssize_t \<times> errno \<times> packed_can_frame" where
  "recv_udp bo r buf =
     (case r of
        Recv_error e \<Rightarrow> (- 1, e, buf)
      | Recv_datagram d \<Rightarrow>
          (of_nat (length d), 0,
           packed_of_bytes bo (take (unat sizeof_packed_can_frame) d
                               @ drop (length d) (bytes_of_packed bo buf))))"

text \<open>\<^verbatim>\<open>recv\<close> on the raw CAN socket: a whole \<^verbatim>\<open>struct can_frame\<close> (16 bytes) or an error.\<close>

definition recv_can :: "can_recv_result \<Rightarrow> can_frame \<Rightarrow> ssize_t \<times> errno \<times> can_frame" where
  "recv_can r buf =
     (case r of
        Can_recv_error e \<Rightarrow> (- 1, e, buf)
      | Can_recv_frame f \<Rightarrow> (16, 0, f))"

text \<open>The lines a failed \<^verbatim>\<open>send\<close> adds.\<close>

definition send_failed :: "connection \<Rightarrow> direction \<Rightarrow> send_result \<Rightarrow> event list" where
  "send_failed conn dir r =
     (case r of
        Send_error e \<Rightarrow> [Printf (str_config (config conn)) dir (Send_failed e)]
      | Send_ok \<Rightarrow> [])"

subsection \<open>The forwarding operations\<close>

text \<open>\<^verbatim>\<open>udp_to_can\<close>. The local \<^verbatim>\<open>size\<close> is written \<open>sz\<close>.\<close>

definition udp_to_can :: "byte_order \<Rightarrow> connection \<Rightarrow> syscalls \<Rightarrow> failure + event list" where
  "udp_to_can bo conn sys =
     (case recv_udp bo (udp_recv sys) (stack_packed_frame sys) of (sz, e, packed_frame) \<Rightarrow>
        if sz = - 1 then
          Inr [Printf (str_config (config conn)) UDP_to_CAN (Recv_failed e)]
        else if sz < PACKED_CAN_FRAME_HDR_SIZE then
          Inr [Printf (str_config (config conn)) UDP_to_CAN
                 (Message_too_short sz PACKED_CAN_FRAME_HDR_SIZE)]
        else
          let truncated =
                (if sz > sizeof_packed_can_frame then
                   [Printf (str_config (config conn)) UDP_to_CAN
                      (Message_truncated sz sizeof_packed_can_frame)]
                 else []);
              sz = (if sz > sizeof_packed_can_frame then sizeof_packed_can_frame else sz)
          in case unpack_can_frame bo packed_frame sz (stack_frame sys) of
               Inl f \<Rightarrow> Inl f
             | Inr frame \<Rightarrow>
                 (case str_can_frame frame of
                    Inl f \<Rightarrow> Inl f
                  | Inr s \<Rightarrow>
                      Inr (truncated
                           @ [Printf (str_config (config conn)) UDP_to_CAN (Frame_text s),
                              Send_can (can_sfd conn) frame]
                           @ send_failed conn UDP_to_CAN (send_res sys))))"

definition can_to_udp :: "byte_order \<Rightarrow> connection \<Rightarrow> syscalls \<Rightarrow> failure + event list" where
  "can_to_udp bo conn sys =
     (case recv_can (can_recv sys) (stack_frame sys) of (r, e, frame) \<Rightarrow>
        if r = - 1 then
          Inr [Printf (str_config (config conn)) CAN_to_UDP (Recv_failed e)]
        else
          case str_can_frame frame of
            Inl f \<Rightarrow> Inl f
          | Inr s \<Rightarrow>
              (case pack_can_frame bo frame (stack_packed_frame sys) of
                 Inl f \<Rightarrow> Inl f
               | Inr (packed_frame, sz) \<Rightarrow>
                   Inr ([Printf (str_config (config conn)) CAN_to_UDP (Frame_text s),
                         Send_udp (out_sfd conn)
                           (take (unat sz) (bytes_of_packed bo packed_frame))]
                        @ send_failed conn CAN_to_UDP (send_res sys))))"

subsection \<open>The polling loop of \<^verbatim>\<open>main\<close>\<close>

text \<open>\<^verbatim>\<open>struct pollfd\<close> and the event bits of \<^verbatim>\<open><poll.h>\<close> on Linux.\<close>

record pollfd =
  fd :: int
  events :: "16 word"
  revents :: "16 word"

definition POLLIN :: "16 word" where "POLLIN = 0x0001"
definition POLLERR :: "16 word" where "POLLERR = 0x0008"
definition POLLHUP :: "16 word" where "POLLHUP = 0x0010"

text \<open>The first loop of \<^verbatim>\<open>main\<close> from index \<open>i\<close>: it fills \<^verbatim>\<open>fd\<close> and \<^verbatim>\<open>events\<close> of
  two descriptors for each connection. The connections are taken as \<^verbatim>\<open>parse_config\<close> and
  \<^verbatim>\<open>setup_connection\<close> leave them (a failure there ends the process before any polling);
  \<open>pfds\<close> starts as the memory \<^verbatim>\<open>xmalloc\<close> returned.\<close>

function setup_pfds :: "connection list \<Rightarrow> nat \<Rightarrow> pollfd list \<Rightarrow> pollfd list" where
  "setup_pfds connections i pfds =
     (if i < length connections then
        let conn = connections ! i;
            pfds = pfds[i * 2 := (pfds ! (i * 2))\<lparr>fd := can_sfd conn, events := POLLIN\<rparr>];
            pfds = pfds[i * 2 + 1 := (pfds ! (i * 2 + 1))\<lparr>fd := in_sfd conn, events := POLLIN\<rparr>]
        in setup_pfds connections (Suc i) pfds
      else pfds)"
  by pat_completeness auto
termination
  by (relation "measure (\<lambda>(connections, i, pfds). length connections - i)") auto

declare setup_pfds.simps [simp del]

text \<open>\<^verbatim>\<open>poll\<close> with no timeout: an error, or the returned events of every descriptor
  (by index). The result is the return value and the array.\<close>

datatype poll_result = Poll_error errno | Poll_revents "nat \<Rightarrow> 16 word"

definition poll :: "poll_result \<Rightarrow> pollfd list \<Rightarrow> int \<times> pollfd list" where
  "poll r pfds =
     (case r of
        Poll_error e \<Rightarrow> (- 1, pfds)
      | Poll_revents rs \<Rightarrow>
          (int (length (filter (\<lambda>i. rs i \<noteq> 0) [0..<length pfds])),
           map (\<lambda>i. (pfds ! i)\<lparr>revents := rs i\<rparr>) [0..<length pfds]))"

text \<open>One call followed by the rest of the loop: a failure ends the process, otherwise
  the events follow each other.\<close>

definition and_then :: "failure + event list \<Rightarrow> failure + event list \<Rightarrow> failure + event list" where
  "and_then r k =
     (case r of
        Inl f \<Rightarrow> Inl f
      | Inr evs \<Rightarrow> (case k of Inl f \<Rightarrow> Inl f | Inr evs' \<Rightarrow> Inr (evs @ evs')))"

text \<open>The inner \<^verbatim>\<open>for\<close> loop from index \<open>i\<close>. \<open>sys i\<close> is what the system answers
  during the call made for descriptor \<open>i\<close>.\<close>

function scan ::
    "byte_order \<Rightarrow> connection list \<Rightarrow> pollfd list \<Rightarrow> (nat \<Rightarrow> syscalls) \<Rightarrow> nat
       \<Rightarrow> failure + event list" where
  "scan bo connections pfds sys i =
     (if i < length connections * 2 then
        (if revents (pfds ! i) AND POLLIN = 0 then scan bo connections pfds sys (Suc i)
         else
           let conn = connections ! (i div 2) in
           if i mod 2 = 0 then
             (if fd (pfds ! i) \<noteq> can_sfd conn then Inl Assertion_failed
              else and_then (can_to_udp bo conn (sys i)) (scan bo connections pfds sys (Suc i)))
           else
             (if fd (pfds ! i) \<noteq> in_sfd conn then Inl Assertion_failed
              else and_then (udp_to_can bo conn (sys i)) (scan bo connections pfds sys (Suc i))))
      else Inr [])"
  by pat_completeness auto
termination
  by (relation "measure (\<lambda>(bo, connections, pfds, sys, i). length connections * 2 - i)") auto

declare scan.simps [simp del]

text \<open>The \<^verbatim>\<open>while (1)\<close> loop, run for as many wake-ups as the list has answers: each
  entry is what \<^verbatim>\<open>poll\<close> returns and what the system answers during the scan that
  follows. \<open>Inr\<close> holds the events of these rounds, after which the loop is still
  running; a failed \<^verbatim>\<open>poll\<close> ends the process through \<^verbatim>\<open>err\<close>.\<close>

fun main_loop ::
    "byte_order \<Rightarrow> connection list \<Rightarrow> pollfd list \<Rightarrow> (poll_result \<times> (nat \<Rightarrow> syscalls)) list
       \<Rightarrow> failure + event list" where
  "main_loop bo connections pfds [] = Inr []"
| "main_loop bo connections pfds ((r, sys) # rest) =
     (case poll r pfds of (ret, pfds) \<Rightarrow>
        if ret = - 1 then Inl Exit_failure
        else and_then (scan bo connections pfds sys 0) (main_loop bo connections pfds rest))"

text \<open>\<^verbatim>\<open>main\<close>: without arguments the usage message and exit; otherwise the two loops.\<close>

definition main ::
    "byte_order \<Rightarrow> connection list \<Rightarrow> pollfd list \<Rightarrow> (poll_result \<times> (nat \<Rightarrow> syscalls)) list
       \<Rightarrow> failure + event list" where
  "main bo connections pfds rounds =
     (if connections = [] then Inl Exit_failure
      else main_loop bo connections (setup_pfds connections 0 pfds) rounds)"

subsection \<open>The dispatch the loop is meant to perform\<close>

text \<open>The descriptors that report readable, in increasing index order; for each of them
  the call of the matching direction on the connection that owns it (descriptor \<open>2k\<close> is
  the CAN socket of connection \<open>k\<close>, descriptor \<open>2k + 1\<close> its UDP socket); the calls of a
  wake-up one after the other; the rounds one after the other.\<close>

definition readable :: "nat \<Rightarrow> (nat \<Rightarrow> 16 word) \<Rightarrow> nat list" where
  "readable n rs = filter (\<lambda>i. rs i AND POLLIN \<noteq> 0) [0..<n]"

definition dispatch_call ::
    "byte_order \<Rightarrow> connection list \<Rightarrow> (nat \<Rightarrow> syscalls) \<Rightarrow> nat \<Rightarrow> failure + event list" where
  "dispatch_call bo connections sys i =
     (if even i then can_to_udp bo (connections ! (i div 2)) (sys i)
      else udp_to_can bo (connections ! (i div 2)) (sys i))"

fun in_sequence :: "(failure + event list) list \<Rightarrow> failure + event list" where
  "in_sequence [] = Inr []"
| "in_sequence (r # rs) = and_then r (in_sequence rs)"

definition dispatch_spec ::
    "byte_order \<Rightarrow> connection list \<Rightarrow> (nat \<Rightarrow> 16 word) \<Rightarrow> (nat \<Rightarrow> syscalls)
       \<Rightarrow> failure + event list" where
  "dispatch_spec bo connections rs sys =
     in_sequence (map (dispatch_call bo connections sys) (readable (2 * length connections) rs))"

fun main_spec ::
    "byte_order \<Rightarrow> connection list \<Rightarrow> (poll_result \<times> (nat \<Rightarrow> syscalls)) list
       \<Rightarrow> failure + event list" where
  "main_spec bo connections [] = Inr []"
| "main_spec bo connections ((Poll_error e, sys) # rest) = Inl Exit_failure"
| "main_spec bo connections ((Poll_revents rs, sys) # rest) =
     and_then (dispatch_spec bo connections rs sys) (main_spec bo connections rest)"

text \<open>The events of a call that returned, and whether an event is a write to a socket.\<close>

definition events_of :: "failure + event list \<Rightarrow> event list" where
  "events_of r = (case r of Inl f \<Rightarrow> [] | Inr evs \<Rightarrow> evs)"

fun is_send :: "event \<Rightarrow> bool" where
  "is_send (Printf c d m) = False"
| "is_send (Send_can s f) = True"
| "is_send (Send_udp s bs) = True"

text \<open>What the first loop of \<^verbatim>\<open>main\<close> establishes and the assertions of the second loop
  check: two descriptors for each connection, its CAN socket and then its UDP socket.\<close>

definition pfds_ok :: "connection list \<Rightarrow> pollfd list \<Rightarrow> bool" where
  "pfds_ok connections pfds \<longleftrightarrow>
     length pfds = 2 * length connections \<and>
     (\<forall>k < length connections.
        fd (pfds ! (2 * k)) = can_sfd (connections ! k) \<and>
        fd (pfds ! (2 * k + 1)) = in_sfd (connections ! k))"

text \<open>What the kernel delivers on a raw CAN socket: an error, or a classic frame with at
  most eight data bytes.\<close>

definition bus_frame_ok :: "can_recv_result \<Rightarrow> bool" where
  "bus_frame_ok r =
     (case r of
        Can_recv_error e \<Rightarrow> True
      | Can_recv_frame f \<Rightarrow> unat (can_dlc f) \<le> 8 \<and> length (data f) = 8)"

subsection \<open>What a call is meant to print and send\<close>

text \<open>The rendering of a frame as the log shows it: the identifier in at least three
  hexadecimal digits, \<^verbatim>\<open>#\<close>, and two hexadecimal digits for each data byte.\<close>

definition hex_frame :: "u32 \<Rightarrow> byte list \<Rightarrow> string" where
  "hex_frame ident payload =
     printf_X 3 (unat ident) @ ''#'' @ concat (map (\<lambda>b. printf_X 2 (unat b)) payload)"

text \<open>The frame a datagram \<open>d\<close> of at least four bytes stands for, written into a struct of
  previous content \<open>frame\<close>: the identifier is bytes 0 to 3, most significant first; the
  data are the bytes from 4 on, eight at most (whatever lies past byte 11 is cut off);
  \<open>can_dlc\<close> is their number. The bytes of \<^verbatim>\<open>data[8]\<close> past \<open>can_dlc\<close> keep the previous
  content.\<close>

definition decoded_frame :: "byte list \<Rightarrow> can_frame \<Rightarrow> can_frame" where
  "decoded_frame d frame =
     frame\<lparr>can_id := be_word (take 4 d),
           can_dlc := of_nat (min (length d) 12 - 4),
           data := take 8 (drop 4 d) @ drop (min (length d) 12 - 4) (data frame)\<rparr>"

text \<open>A frame without the bytes of \<^verbatim>\<open>data[8]\<close> past \<open>can_dlc\<close>, and the events of a call
  with every frame written to a CAN socket so reduced.\<close>

definition payload_frame :: "can_frame \<Rightarrow> can_frame" where
  "payload_frame f = f\<lparr>data := take (unat (can_dlc f)) (data f)\<rparr>"

fun payload_event :: "event \<Rightarrow> event" where
  "payload_event (Printf c d m) = Printf c d m"
| "payload_event (Send_can s f) = Send_can s (payload_frame f)"
| "payload_event (Send_udp s bs) = Send_udp s bs"

definition payload_events :: "failure + event list \<Rightarrow> failure + event list" where
  "payload_events r = (case r of Inl f \<Rightarrow> Inl f | Inr evs \<Rightarrow> Inr (map payload_event evs))"

subsection \<open>Sample values\<close>

text \<open>A connection as the README configures it, and answers of the system: the datagram
  \<^verbatim>\<open>000000ABAB\<close> on the UDP socket, the frame \<^verbatim>\<open>123#DEADBEEF\<close> on the CAN socket.\<close>

definition sample_connection :: connection where
  "sample_connection =
     \<lparr>config = \<lparr>can_ifname = ''vcan0'', in_port = ''8880'', out_host = ''127.0.0.1'', out_port = ''9990''\<rparr>,
      can_sfd = 3, in_sfd = 4, out_sfd = 5\<rparr>"

definition sample_syscalls :: syscalls where
  "sample_syscalls =
     \<lparr>udp_recv = Recv_datagram [0x00, 0x00, 0x00, 0xAB, 0xAB],
      can_recv = Can_recv_frame \<lparr>can_id = 0x123, can_dlc = 4, data = [0xDE, 0xAD, 0xBE, 0xEF, 0, 0, 0, 0]\<rparr>,
      send_res = Send_ok,
      stack_packed_frame = \<lparr>p_can_id = 0, p_data = [0, 0, 0, 0, 0, 0, 0, 0]\<rparr>,
      stack_frame = \<lparr>can_id = 0, can_dlc = 0, data = [0, 0, 0, 0, 0, 0, 0, 0]\<rparr>\<rparr>"

text \<open>A second connection, as in the README.\<close>

definition second_connection :: connection where
  "second_connection =
     \<lparr>config = \<lparr>can_ifname = ''vcan1'', in_port = ''8881'', out_host = ''127.0.0.1'', out_port = ''9991''\<rparr>,
      can_sfd = 6, in_sfd = 7, out_sfd = 8\<rparr>"

text \<open>A datagram of thirteen bytes: one more than a packed frame holds.\<close>

definition oversized_datagram :: "byte list" where
  "oversized_datagram = [0x00, 0x00, 0x01, 0x23, 1, 2, 3, 4, 5, 6, 7, 8, 9]"

text \<open>Answers of a system on which every call fails.\<close>

definition failing_syscalls :: syscalls where
  "failing_syscalls =
     sample_syscalls\<lparr>udp_recv := Recv_error 11, can_recv := Can_recv_error 100, send_res := Send_error 105\<rparr>"

section \<open>Byte order and sizes\<close>

lemma byte_bit_hi: "bit (b :: byte) (8 + n) = False" "bit b (16 + n) = False" "bit b (24 + n) = False"
  by (auto dest: bit_imp_le_length)

lemma be_word_be_bytes: "be_word (be_bytes x) = x"
proof (rule bit_word_eqI)
  fix n assume "n < LENGTH(32)"
  then have n: "n < 32" by simp
  consider "n < 8" | "8 \<le> n" "n < 16" | "16 \<le> n" "n < 24" | "24 \<le> n" by linarith
  then show "bit (be_word (be_bytes x)) n = bit x n"
    using n by cases (auto simp: be_word_def be_bytes_def bit_simps)
qed

lemma be_bytes_be_word: "be_bytes (be_word [a, b, c, d]) = [a, b, c, d]"
  unfolding be_word_def be_bytes_def
  by simp (intro conjI; rule bit_word_eqI; auto simp: bit_simps byte_bit_hi)

lemma length_be_bytes: "length (be_bytes x) = 4"
  by (simp add: be_bytes_def)

lemma byte_masks:
  "(0xff :: u32) = mask 8"
  "(0xff00 :: u32) = push_bit 8 (mask 8)"
  "(0xff0000 :: u32) = push_bit 16 (mask 8)"
  "(0xff000000 :: u32) = push_bit 24 (mask 8)"
  by (simp_all add: mask_eq_exp_minus_1 push_bit_eq_mult)

lemma be_bytes_bswap32: "be_bytes (bswap32 x) = rev (be_bytes x)"
  unfolding bswap32_def be_bytes_def byte_masks
  by simp (intro conjI; rule bit_word_eqI; auto simp: bit_simps)

lemma store32_htonl: "store32 bo (htonl bo x) = be_bytes x"
  by (cases bo) (simp_all add: store32_def htonl_def be_bytes_bswap32)

lemma length_store32: "length (store32 bo x) = 4"
  by (cases bo) (simp_all add: store32_def length_be_bytes)

lemma ntohl_load32: "ntohl bo (load32 bo [a, b, c, d]) = be_word [a, b, c, d]"
proof (cases bo)
  case Big_endian
  then show ?thesis by (simp add: ntohl_def load32_def)
next
  case Little_endian
  have "be_bytes (bswap32 (be_word [d, c, b, a])) = [a, b, c, d]"
    by (simp add: be_bytes_bswap32 be_bytes_be_word)
  then have "be_word (be_bytes (bswap32 (be_word [d, c, b, a]))) = be_word [a, b, c, d]"
    by simp
  then show ?thesis
    using Little_endian by (simp add: ntohl_def load32_def be_word_be_bytes)
qed

lemma ntohl_load32_be_bytes: "ntohl bo (load32 bo (be_bytes x)) = x"
  using ntohl_load32 [of bo "ucast (drop_bit 24 x)" "ucast (drop_bit 16 x)" "ucast (drop_bit 8 x)" "ucast x"]
    be_word_be_bytes [of x]
  by (simp add: be_bytes_def)

lemma hdr_size: "PACKED_CAN_FRAME_HDR_SIZE = 4"
  by (simp add: PACKED_CAN_FRAME_HDR_SIZE_def sizeof_packed_can_frame_def)

lemma sizeof_packed: "sizeof_packed_can_frame = 12"
  by (simp add: sizeof_packed_can_frame_def PACKED_CAN_FRAME_MAX_DATA_SIZE_def)

lemma dlc_size: "unat (ucast c + (4 :: size_t)) = 4 + unat c" if "unat (c :: byte) \<le> 8"
proof -
  have "unat (ucast c :: size_t) = unat c"
    by (simp add: unsigned_ucast_eq take_bit_nat_eq_self_iff) (rule less_le_trans [OF unsigned_less], simp)
  then show ?thesis
    using that by (simp add: unat_word_ariths)
qed

lemma pack_ok:
  assumes "unat (can_dlc f) \<le> 8"
  shows "pack_can_frame bo f pf0 =
           Inr (\<lparr>p_can_id = htonl bo (can_id f),
                 p_data = take (unat (can_dlc f)) (data f) @ drop (unat (can_dlc f)) (p_data pf0)\<rparr>,
                ucast (can_dlc f) + 4)"
  using assms
  by (simp add: pack_can_frame_def PACKED_CAN_FRAME_MAX_DATA_SIZE_def hdr_size memcpy_def Let_def)

lemma unpack_ok:
  assumes "4 \<le> sz" "sz \<le> 12"
  shows "unpack_can_frame bo pf sz f0 =
           Inr (f0\<lparr>can_id := ntohl bo (p_can_id pf), can_dlc := ucast (sz - 4),
                   data := take (unat (sz - 4)) (p_data pf) @ drop (unat (sz - 4)) (data f0)\<rparr>)"
proof -
  have "sz - 4 \<le> 8"
    using assms by unat_arith
  then show ?thesis
    using assms
    by (simp add: unpack_can_frame_def sizeof_packed hdr_size PACKED_CAN_FRAME_MAX_DATA_SIZE_def
        memcpy_def Let_def)
qed

lemma unat_sub4: "4 \<le> (sz :: size_t) \<Longrightarrow> unat (sz - 4) = unat sz - 4"
  by unat_arith

lemma ucast_sub4: "4 \<le> (sz :: size_t) \<Longrightarrow> sz \<le> 12 \<Longrightarrow> unat (ucast (sz - 4) :: byte) = unat sz - 4"
  apply (simp add: unsigned_ucast_eq take_bit_nat_eq_self_iff unat_sub4)
  apply unat_arith
  done

lemma be_bytes_0x123: "be_bytes 0x123 = [0x00, 0x00, 0x01, 0x23]"
  by (simp add: be_bytes_def)

lemma dlc_size_of_nat: "unat (c :: byte) \<le> 8 \<Longrightarrow> (ucast c + 4 :: size_t) = of_nat (4 + unat c)"
proof -
  assume "unat c \<le> 8"
  then have "unat (ucast c + 4 :: size_t) = 4 + unat c"
    by (rule dlc_size)
  moreover have "of_nat (unat (ucast c + 4 :: size_t)) = (ucast c + 4 :: size_t)"
    by simp
  ultimately show ?thesis
    by simp
qed

lemma unat_ucast_byte: "unat (ucast (c :: byte) :: size_t) = unat c"
  by (simp add: unsigned_ucast_eq take_bit_nat_eq_self_iff) (rule less_le_trans [OF unsigned_less], simp)

lemma ucast_ucast_byte: "(ucast (ucast (c :: byte) :: size_t) :: byte) = c"
  by (rule bit_word_eqI) (auto simp: bit_simps)


lemma unat_size12: "unat (12 :: size_t) = 12" by simp

lemma ucast_back: "unat (c :: byte) \<le> 8 \<Longrightarrow> (ucast (ucast c + 4 - (4 :: size_t)) :: byte) = c"
  by (simp add: ucast_ucast_byte)

lemma size_bounds: "unat (c :: byte) \<le> 8 \<Longrightarrow> 4 \<le> (ucast c + 4 :: size_t) \<and> (ucast c + 4 :: size_t) \<le> 12"
  using dlc_size [of c] by (simp add: word_le_nat_alt)

lemma bswap32_bswap32: "bswap32 (bswap32 x) = x"
proof -
  have "be_bytes (bswap32 (bswap32 x)) = be_bytes x"
    by (simp add: be_bytes_bswap32)
  then have "be_word (be_bytes (bswap32 (bswap32 x))) = be_word (be_bytes x)"
    by simp
  then show ?thesis
    by (simp only: be_word_be_bytes)
qed

section \<open>The forwarding operations\<close>

lemma str_can_frame_data_ok:
  "unat (can_dlc frame) \<le> length (data frame) \<Longrightarrow> \<exists>s. str_can_frame_data frame i = Inr s"
proof (induction frame i rule: str_can_frame_data.induct)
  case (1 frame i)
  show ?case
  proof (cases "i < unat (can_dlc frame)")
    case True
    with "1.prems" have "i < length (data frame)" by simp
    moreover obtain s where "str_can_frame_data frame (Suc i) = Inr s"
      using "1.IH" True \<open>i < length (data frame)\<close> "1.prems" by auto
    ultimately show ?thesis
      using True by (subst str_can_frame_data.simps) simp
  next
    case False
    then show ?thesis
      by (subst str_can_frame_data.simps) simp
  qed
qed

lemma str_can_frame_ok:
  "unat (can_dlc frame) \<le> length (data frame) \<Longrightarrow> \<exists>s. str_can_frame frame = Inr s"
  using str_can_frame_data_ok [of frame 0] by (auto simp: str_can_frame_def)

lemma ntohl_load32_list: "length bs = 4 \<Longrightarrow> ntohl bo (load32 bo bs) = be_word bs"
proof -
  assume "length bs = 4"
  then obtain a b c d where "bs = [a, b, c, d]"
    by (auto simp: length_Suc_conv numeral_eq_Suc)
  then show ?thesis
    by (simp only: ntohl_load32)
qed

lemma unat_ucast_sub4: "4 \<le> (sz :: size_t) \<Longrightarrow> sz \<le> 12 \<Longrightarrow> unat (sz - 4) \<le> 8"
  by unat_arith

lemma udp_to_can_forward:
  assumes recv: "recv_udp bo (udp_recv sys) (stack_packed_frame sys) = (sz, e, pf)"
    and sz: "sz \<noteq> - 1" "\<not> sz < 4"
    and sz': "sz' = (if 12 < sz then 12 else sz)"
    and len: "unat (sz' - 4) \<le> length (p_data pf)"
    and F: "F = (stack_frame sys)\<lparr>can_id := ntohl bo (p_can_id pf), can_dlc := ucast (sz' - 4),
                  data := take (unat (sz' - 4)) (p_data pf) @ drop (unat (sz' - 4)) (data (stack_frame sys))\<rparr>"
  shows "\<exists>s. str_can_frame F = Inr s \<and>
           udp_to_can bo conn sys =
             Inr ((if 12 < sz then [Printf (str_config (config conn)) UDP_to_CAN (Message_truncated sz 12)] else [])
                  @ [Printf (str_config (config conn)) UDP_to_CAN (Frame_text s), Send_can (can_sfd conn) F]
                  @ send_failed conn UDP_to_CAN (send_res sys))"
proof -
  have b: "4 \<le> sz'" "sz' \<le> 12"
    using sz(2) by (auto simp: sz' not_less)
  have un: "unpack_can_frame bo pf sz' (stack_frame sys) = Inr F"
    unfolding F by (rule unpack_ok [OF b])
  have "unat (can_dlc F) = unat (sz' - 4)"
    using b by (simp add: F ucast_sub4 unat_sub4)
  moreover have "unat (sz' - 4) \<le> length (data F)"
    using len by (simp add: F)
  ultimately obtain s where s: "str_can_frame F = Inr s"
    using str_can_frame_ok [of F] by auto
  have "udp_to_can bo conn sys =
             Inr ((if 12 < sz then [Printf (str_config (config conn)) UDP_to_CAN (Message_truncated sz 12)] else [])
                  @ [Printf (str_config (config conn)) UDP_to_CAN (Frame_text s), Send_can (can_sfd conn) F]
                  @ send_failed conn UDP_to_CAN (send_res sys))"
  proof (cases "12 < sz")
    case True
    with un have "unpack_can_frame bo pf 12 (stack_frame sys) = Inr F"
      by (simp add: sz')
    with True sz s show ?thesis
      by (simp add: udp_to_can_def recv hdr_size sizeof_packed Let_def)
  next
    case False
    with un have "unpack_can_frame bo pf sz (stack_frame sys) = Inr F"
      by (simp add: sz')
    with False sz s show ?thesis
      by (simp add: udp_to_can_def recv hdr_size sizeof_packed Let_def)
  qed
  with s show ?thesis by blast
qed

lemma unat_of_nat_len: "n < 2 ^ 63 \<Longrightarrow> unat (of_nat n :: size_t) = n"
  by (simp add: unat_of_nat)

lemma of_nat_len_neq_minus1: "n < 2 ^ 63 \<Longrightarrow> (of_nat n :: size_t) \<noteq> - 1"
proof
  assume n: "n < 2 ^ 63" and "(of_nat n :: size_t) = - 1"
  then have "unat (of_nat n :: size_t) = unat (- 1 :: size_t)" by simp
  with n show False by (simp add: unat_of_nat_len unsigned_minus_1_eq_mask mask_eq_exp_minus_1)
qed

lemma of_nat_len_less: "n < 2 ^ 63 \<Longrightarrow> (of_nat n :: size_t) < 4 \<longleftrightarrow> n < 4"
  by (simp add: word_less_nat_alt unat_of_nat_len)

lemma of_nat_len_greater: "n < 2 ^ 63 \<Longrightarrow> 12 < (of_nat n :: size_t) \<longleftrightarrow> 12 < n"
  by (simp add: word_less_nat_alt unat_of_nat_len)

lemma recv_udp_datagram:
  "recv_udp bo (Recv_datagram d) buf =
     (of_nat (length d), 0, packed_of_bytes bo (take 12 d @ drop (length d) (bytes_of_packed bo buf)))"
  by (simp add: recv_udp_def sizeof_packed)

lemma udp_to_can_recv_error:
  "udp_recv sys = Recv_error e \<Longrightarrow>
     udp_to_can bo conn sys = Inr [Printf (str_config (config conn)) UDP_to_CAN (Recv_failed e)]"
  by (simp add: udp_to_can_def recv_udp_def)

lemma udp_to_can_too_short:
  assumes "udp_recv sys = Recv_datagram d" and "length d < 4"
  shows "udp_to_can bo conn sys =
           Inr [Printf (str_config (config conn)) UDP_to_CAN (Message_too_short (of_nat (length d)) 4)]"
proof -
  have "length d < 2 ^ 63"
    using assms(2) by simp
  then have "(of_nat (length d) :: size_t) \<noteq> - 1" "(of_nat (length d) :: size_t) < 4"
    using assms(2) by (simp_all add: of_nat_len_neq_minus1 of_nat_len_less)
  then show ?thesis
    by (simp add: udp_to_can_def assms(1) recv_udp_datagram hdr_size)
qed

lemma udp_to_can_datagram:
  assumes recv: "udp_recv sys = Recv_datagram d" and d: "4 \<le> length d" "length d < 2 ^ 63"
    and n: "n = min (length d) 12 - 4"
    and F: "F = (stack_frame sys)\<lparr>can_id := be_word (take 4 d), can_dlc := of_nat n,
                  data := take n (drop 4 d) @ drop n (data (stack_frame sys))\<rparr>"
  shows "\<exists>s. str_can_frame F = Inr s \<and>
           udp_to_can bo conn sys =
             Inr ((if 12 < length d
                   then [Printf (str_config (config conn)) UDP_to_CAN
                           (Message_truncated (of_nat (length d)) 12)]
                   else [])
                  @ [Printf (str_config (config conn)) UDP_to_CAN (Frame_text s), Send_can (can_sfd conn) F]
                  @ send_failed conn UDP_to_CAN (send_res sys))"
proof -
  define sz :: size_t where "sz = of_nat (length d)"
  define sz' :: size_t where "sz' = (if 12 < sz then 12 else sz)"
  define pf where "pf = packed_of_bytes bo (take 12 d @ drop (length d) (bytes_of_packed bo (stack_packed_frame sys)))"
  have r: "recv_udp bo (udp_recv sys) (stack_packed_frame sys) = (sz, 0, pf)"
    by (simp add: recv recv_udp_datagram sz_def pf_def)
  have sz: "sz \<noteq> - 1" "\<not> sz < 4" "12 < sz \<longleftrightarrow> 12 < length d"
    using d by (simp_all add: sz_def of_nat_len_neq_minus1 of_nat_len_less of_nat_len_greater)
  have sz'_nat: "sz' = of_nat (min (length d) 12)"
    by (simp add: sz'_def sz(3)) (simp add: sz_def min_def)
  have "min (length d) 12 = 4 + n"
    using d(1) by (simp add: n)
  then have "sz' = of_nat n + 4"
    by (simp add: sz'_nat)
  then have sub: "sz' - 4 = of_nat n"
    by simp
  have n8: "n \<le> 8" "n \<le> length (drop 4 d)" "n < 2 ^ 63"
    using d by (simp_all add: n)
  have un: "unat (sz' - 4) = n"
    using n8 by (simp add: sub unat_of_nat_len)
  have uc: "(ucast (sz' - 4) :: byte) = of_nat n"
    using n8 by (simp add: sub unsigned_of_nat take_bit_nat_eq_self)
  have len: "unat (sz' - 4) \<le> length (p_data pf)"
    using d(1) by (simp add: un pf_def packed_of_bytes_def n)
  have id: "ntohl bo (p_can_id pf) = be_word (take 4 d)"
    using d(1) by (simp add: pf_def packed_of_bytes_def ntohl_load32_list)
  have "drop 4 (take 12 d) = take 8 (drop 4 d)"
    by (simp add: drop_take)
  then have data: "take n (p_data pf) = take n (drop 4 d)"
    using d(1) n8 by (simp add: pf_def packed_of_bytes_def)
  have F': "F = (stack_frame sys)\<lparr>can_id := ntohl bo (p_can_id pf), can_dlc := ucast (sz' - 4),
                  data := take (unat (sz' - 4)) (p_data pf) @ drop (unat (sz' - 4)) (data (stack_frame sys))\<rparr>"
    by (simp add: F id uc un data)
  show ?thesis
    using udp_to_can_forward [OF r sz(1,2) sz'_def len F', of conn] d(2)
    unfolding sz_def by (simp add: of_nat_len_greater)
qed

lemma str_config_sample: "str_config (config sample_connection) = ''vcan0:8880:127.0.0.1:9990''"
  by (simp add: str_config_def sample_connection_def)

lemma be_word_0xAB: "be_word [0x00, 0x00, 0x00, 0xAB] = 0xAB"
  by (simp add: be_word_def)

lemma printf_X_0xAB: "printf_X 3 0xAB = ''0AB''" "printf_X 2 0xAB = ''AB''"
  by (simp_all add: printf_X_def hex_digits.simps hex_digit_def)

lemma str_can_frame_0AB:
  "str_can_frame (f\<lparr>can_id := 0xAB, can_dlc := 1, data := 0xAB # bs\<rparr>) = Inr ''0AB#AB''"
proof -
  let ?f = "f\<lparr>can_id := 0xAB, can_dlc := 1, data := 0xAB # bs\<rparr>"
  have "str_can_frame_data ?f (Suc 0) = Inr []"
    by (subst str_can_frame_data.simps) simp
  then have "str_can_frame_data ?f 0 = Inr ''AB''"
    by (subst str_can_frame_data.simps) (simp add: printf_X_0xAB)
  then show ?thesis
    by (simp add: str_can_frame_def printf_X_0xAB)
qed

lemma guards_bound:
  assumes "\<not> sz < PACKED_CAN_FRAME_HDR_SIZE"
    and "sz' = (if sz > sizeof_packed_can_frame then sizeof_packed_can_frame else sz)"
  shows "4 \<le> sz'" "sz' \<le> 12"
  using assms by (auto simp: hdr_size sizeof_packed not_less)

lemma udp_to_can_truncated:
  assumes d: "12 < length d" "length d < 2 ^ 63"
    and F: "F = (stack_frame sys)\<lparr>can_id := be_word (take 4 d), can_dlc := 8,
                  data := take 8 (drop 4 d) @ drop 8 (data (stack_frame sys))\<rparr>"
  shows "\<exists>s. udp_to_can bo conn (sys\<lparr>udp_recv := Recv_datagram (take 12 d)\<rparr>) =
               Inr ([Printf (str_config (config conn)) UDP_to_CAN (Frame_text s),
                     Send_can (can_sfd conn) F]
                    @ send_failed conn UDP_to_CAN (send_res sys))
           \<and> udp_to_can bo conn (sys\<lparr>udp_recv := Recv_datagram d\<rparr>) =
               Inr ([Printf (str_config (config conn)) UDP_to_CAN
                       (Message_truncated (of_nat (length d)) 12),
                     Printf (str_config (config conn)) UDP_to_CAN (Frame_text s),
                     Send_can (can_sfd conn) F]
                    @ send_failed conn UDP_to_CAN (send_res sys))"
proof -
  let ?sys = "sys\<lparr>udp_recv := Recv_datagram d\<rparr>"
  let ?sys12 = "sys\<lparr>udp_recv := Recv_datagram (take 12 d)\<rparr>"
  have 1: "\<exists>s. str_can_frame F = Inr s \<and>
           udp_to_can bo conn ?sys =
             Inr ((if 12 < length d
                   then [Printf (str_config (config conn)) UDP_to_CAN
                           (Message_truncated (of_nat (length d)) 12)]
                   else [])
                  @ [Printf (str_config (config conn)) UDP_to_CAN (Frame_text s), Send_can (can_sfd conn) F]
                  @ send_failed conn UDP_to_CAN (send_res ?sys))"
    using d by (intro udp_to_can_datagram [where n = 8 and d = d]) (simp_all add: F)
  have 2: "\<exists>s. str_can_frame F = Inr s \<and>
           udp_to_can bo conn ?sys12 =
             Inr ((if 12 < length (take 12 d)
                   then [Printf (str_config (config conn)) UDP_to_CAN
                           (Message_truncated (of_nat (length (take 12 d))) 12)]
                   else [])
                  @ [Printf (str_config (config conn)) UDP_to_CAN (Frame_text s), Send_can (can_sfd conn) F]
                  @ send_failed conn UDP_to_CAN (send_res ?sys12))"
    using d by (intro udp_to_can_datagram [where n = 8 and d = "take 12 d"]) (simp_all add: F drop_take)
  from 1 2 d(1) show ?thesis
    by auto
qed

lemma can_to_udp_recv_error:
  "can_recv sys = Can_recv_error e \<Longrightarrow>
     can_to_udp bo conn sys = Inr [Printf (str_config (config conn)) CAN_to_UDP (Recv_failed e)]"
  by (simp add: can_to_udp_def recv_can_def)

lemma can_to_udp_frame:
  assumes recv: "can_recv sys = Can_recv_frame f"
    and f: "unat (can_dlc f) \<le> 8" "length (data f) = 8"
  shows "\<exists>s. str_can_frame f = Inr s \<and>
           can_to_udp bo conn sys =
             Inr ([Printf (str_config (config conn)) CAN_to_UDP (Frame_text s),
                   Send_udp (out_sfd conn) (be_bytes (can_id f) @ take (unat (can_dlc f)) (data f))]
                  @ send_failed conn CAN_to_UDP (send_res sys))"
proof -
  obtain s where s: "str_can_frame f = Inr s"
    using str_can_frame_ok [of f] f by auto
  have "take (unat (ucast (can_dlc f) + (4 :: size_t)))
          (bytes_of_packed bo \<lparr>p_can_id = htonl bo (can_id f),
             p_data = take (unat (can_dlc f)) (data f)
                      @ drop (unat (can_dlc f)) (p_data (stack_packed_frame sys))\<rparr>)
        = be_bytes (can_id f) @ take (unat (can_dlc f)) (data f)"
    using f by (simp add: dlc_size bytes_of_packed_def store32_htonl length_be_bytes)
  then have "can_to_udp bo conn sys =
             Inr ([Printf (str_config (config conn)) CAN_to_UDP (Frame_text s),
                   Send_udp (out_sfd conn) (be_bytes (can_id f) @ take (unat (can_dlc f)) (data f))]
                  @ send_failed conn CAN_to_UDP (send_res sys))"
    using f(1) by (simp add: can_to_udp_def recv recv_can_def s pack_ok)
  with s show ?thesis
    by blast
qed

lemma send_failed_cases:
  "send_failed conn dir Send_ok = []"
  "send_failed conn dir (Send_error e) = [Printf (str_config (config conn)) dir (Send_failed e)]"
  by (simp_all add: send_failed_def)

lemma no_send_in_send_failed: "filter is_send (send_failed conn dir r) = []"
  by (cases r) (simp_all add: send_failed_def)

lemma udp_to_can_0000ABAB:
  "udp_to_can bo conn (sys\<lparr>udp_recv := Recv_datagram [0x00, 0x00, 0x00, 0xAB, 0xAB]\<rparr>) =
     Inr ([Printf (str_config (config conn)) UDP_to_CAN (Frame_text ''0AB#AB''),
           Send_can (can_sfd conn)
             ((stack_frame sys)\<lparr>can_id := 0xAB, can_dlc := 1,
                                data := 0xAB # drop 1 (data (stack_frame sys))\<rparr>)]
          @ send_failed conn UDP_to_CAN (send_res sys))"
proof -
  let ?sys = "sys\<lparr>udp_recv := Recv_datagram [0x00, 0x00, 0x00, 0xAB, 0xAB]\<rparr>"
  let ?F = "(stack_frame sys)\<lparr>can_id := 0xAB, can_dlc := 1, data := 0xAB # drop 1 (data (stack_frame sys))\<rparr>"
  have "\<exists>s. str_can_frame ?F = Inr s \<and>
           udp_to_can bo conn ?sys =
             Inr ((if 12 < length [0x00, 0x00, 0x00, 0xAB, 0xAB :: byte]
                   then [Printf (str_config (config conn)) UDP_to_CAN
                           (Message_truncated (of_nat (length [0x00, 0x00, 0x00, 0xAB, 0xAB :: byte])) 12)]
                   else [])
                  @ [Printf (str_config (config conn)) UDP_to_CAN (Frame_text s), Send_can (can_sfd conn) ?F]
                  @ send_failed conn UDP_to_CAN (send_res ?sys))"
    by (rule udp_to_can_datagram [where n = 1]) (simp_all add: be_word_0xAB)
  then show ?thesis
    by (simp add: str_can_frame_0AB)
qed

lemma sample_syscalls_udp_recv:
  "sample_syscalls\<lparr>udp_recv := Recv_datagram [0x00, 0x00, 0x00, 0xAB, 0xAB]\<rparr> = sample_syscalls"
  by (simp add: sample_syscalls_def)

lemma udp_to_can_one_send:
  "\<exists>evs. udp_to_can bo conn sys = Inr evs \<and> length (filter is_send evs) \<le> 1"
proof (cases "udp_recv sys")
  case (Recv_error e)
  then show ?thesis
    by (simp add: udp_to_can_recv_error)
next
  case (Recv_datagram d)
  define sz :: size_t where "sz = of_nat (length d)"
  define sz' :: size_t where "sz' = (if 12 < sz then 12 else sz)"
  define pf where "pf = packed_of_bytes bo (take 12 d @ drop (length d) (bytes_of_packed bo (stack_packed_frame sys)))"
  have r: "recv_udp bo (udp_recv sys) (stack_packed_frame sys) = (sz, 0, pf)"
    by (simp add: Recv_datagram recv_udp_datagram sz_def pf_def)
  show ?thesis
  proof (cases "sz = - 1 \<or> sz < 4")
    case True
    then show ?thesis
      by (auto simp: udp_to_can_def r hdr_size)
  next
    case False
    then have sz: "sz \<noteq> - 1" "\<not> sz < 4"
      by simp_all
    have b: "4 \<le> sz'" "sz' \<le> 12"
      using sz(2) by (auto simp: sz'_def not_less)
    have len: "unat (sz' - 4) \<le> length (p_data pf)"
    proof (cases "12 \<le> length d")
      case True
      then have "8 \<le> length (p_data pf)"
        by (simp add: pf_def packed_of_bytes_def)
      with unat_ucast_sub4 [OF b] show ?thesis
        by simp
    next
      case False
      then have "length d < 2 ^ 63"
        by simp
      then have u: "unat sz = length d"
        by (simp add: sz_def unat_of_nat_len)
      with False have "\<not> 12 < sz"
        by (simp add: word_less_nat_alt)
      then have "sz' = sz"
        by (simp add: sz'_def)
      with b u have "unat (sz' - 4) = length d - 4"
        by (simp add: unat_sub4)
      with False show ?thesis
        by (simp add: pf_def packed_of_bytes_def)
    qed
    from udp_to_can_forward [OF r sz sz'_def len refl, of conn] show ?thesis
      by (auto simp: no_send_in_send_failed)
  qed
qed

lemma can_to_udp_one_send:
  assumes "bus_frame_ok (can_recv sys)"
  shows "\<exists>evs. can_to_udp bo conn sys = Inr evs \<and> length (filter is_send evs) \<le> 1"
proof (cases "can_recv sys")
  case (Can_recv_error e)
  then show ?thesis
    by (simp add: can_to_udp_recv_error)
next
  case (Can_recv_frame f)
  with assms have "unat (can_dlc f) \<le> 8" "length (data f) = 8"
    by (simp_all add: bus_frame_ok_def)
  from can_to_udp_frame [OF Can_recv_frame this, of bo conn] show ?thesis
    by (auto simp: no_send_in_send_failed)
qed

lemma udp_to_can_returns: "\<exists>evs. udp_to_can bo conn sys = Inr evs"
  using udp_to_can_one_send by blast

lemma str_can_frame_123_DEADBEEF:
  "str_can_frame \<lparr>can_id = 0x123, can_dlc = 4, data = [0xDE, 0xAD, 0xBE, 0xEF, 0, 0, 0, 0]\<rparr>
     = Inr ''123#DEADBEEF''"
  by (simp add: str_can_frame_def str_can_frame_data.simps printf_X_def hex_digits.simps hex_digit_def)

lemma can_to_udp_sample:
  "can_to_udp Little_endian sample_connection sample_syscalls =
     Inr [Printf ''vcan0:8880:127.0.0.1:9990'' CAN_to_UDP (Frame_text ''123#DEADBEEF''),
          Send_udp 5 [0x00, 0x00, 0x01, 0x23, 0xDE, 0xAD, 0xBE, 0xEF]]"
proof -
  let ?f = "\<lparr>can_id = 0x123, can_dlc = 4, data = [0xDE, 0xAD, 0xBE, 0xEF, 0, 0, 0, 0]\<rparr>"
  have "\<exists>s. str_can_frame ?f = Inr s \<and>
           can_to_udp Little_endian sample_connection sample_syscalls =
             Inr ([Printf (str_config (config sample_connection)) CAN_to_UDP (Frame_text s),
                   Send_udp (out_sfd sample_connection)
                     (be_bytes (can_id ?f) @ take (unat (can_dlc ?f)) (data ?f))]
                  @ send_failed sample_connection CAN_to_UDP (send_res sample_syscalls))"
    by (rule can_to_udp_frame) (simp_all add: sample_syscalls_def)
  then show ?thesis
    by (simp add: str_can_frame_123_DEADBEEF str_config_sample be_bytes_0x123)
       (simp add: sample_connection_def sample_syscalls_def send_failed_def)
qed

lemma udp_to_can_sample:
  "udp_to_can Little_endian sample_connection sample_syscalls =
     Inr [Printf ''vcan0:8880:127.0.0.1:9990'' UDP_to_CAN (Frame_text ''0AB#AB''),
          Send_can 3 \<lparr>can_id = 0xAB, can_dlc = 1, data = [0xAB, 0, 0, 0, 0, 0, 0, 0]\<rparr>]"
proof -
  have "udp_to_can Little_endian sample_connection sample_syscalls =
     Inr ([Printf (str_config (config sample_connection)) UDP_to_CAN (Frame_text ''0AB#AB''),
           Send_can (can_sfd sample_connection)
             ((stack_frame sample_syscalls)\<lparr>can_id := 0xAB, can_dlc := 1,
                                data := 0xAB # drop 1 (data (stack_frame sample_syscalls))\<rparr>)]
          @ send_failed sample_connection UDP_to_CAN (send_res sample_syscalls))"
    using udp_to_can_0000ABAB [of Little_endian sample_connection sample_syscalls]
    by (simp only: sample_syscalls_udp_recv)
  then show ?thesis
    by (simp add: str_config_sample) (simp add: sample_connection_def sample_syscalls_def send_failed_def)
qed

lemma str_can_frame_123_0102030405060708:
  "str_can_frame (f\<lparr>can_id := 0x123, can_dlc := 8, data := [1, 2, 3, 4, 5, 6, 7, 8]\<rparr>)
     = Inr ''123#0102030405060708''"
  by (simp add: str_can_frame_def str_can_frame_data.simps printf_X_def hex_digits.simps hex_digit_def)

lemma udp_to_can_oversized_sample:
  "udp_to_can Little_endian sample_connection (sample_syscalls\<lparr>udp_recv := Recv_datagram oversized_datagram\<rparr>) =
     Inr [Printf ''vcan0:8880:127.0.0.1:9990'' UDP_to_CAN (Message_truncated 13 12),
          Printf ''vcan0:8880:127.0.0.1:9990'' UDP_to_CAN (Frame_text ''123#0102030405060708''),
          Send_can 3 \<lparr>can_id = 0x123, can_dlc = 8, data = [1, 2, 3, 4, 5, 6, 7, 8]\<rparr>]"
proof -
  let ?sys = "sample_syscalls\<lparr>udp_recv := Recv_datagram oversized_datagram\<rparr>"
  let ?F = "(stack_frame ?sys)\<lparr>can_id := 0x123, can_dlc := 8, data := [1, 2, 3, 4, 5, 6, 7, 8]\<rparr>"
  have "\<exists>s. str_can_frame ?F = Inr s \<and>
           udp_to_can Little_endian sample_connection ?sys =
             Inr ((if 12 < length oversized_datagram
                   then [Printf (str_config (config sample_connection)) UDP_to_CAN
                           (Message_truncated (of_nat (length oversized_datagram)) 12)]
                   else [])
                  @ [Printf (str_config (config sample_connection)) UDP_to_CAN (Frame_text s),
                     Send_can (can_sfd sample_connection) ?F]
                  @ send_failed sample_connection UDP_to_CAN (send_res ?sys))"
    by (rule udp_to_can_datagram [where n = 8])
       (simp_all add: oversized_datagram_def be_word_def sample_syscalls_def)
  then show ?thesis
    by (simp add: str_can_frame_123_0102030405060708 str_config_sample)
       (simp add: oversized_datagram_def sample_connection_def sample_syscalls_def send_failed_def)
qed

lemma str_can_frame_data_eq:
  assumes "unat (can_dlc frame) \<le> length (data frame)"
  shows "str_can_frame_data frame i =
           Inr (concat (map (\<lambda>b. printf_X 2 (unat b)) (drop i (take (unat (can_dlc frame)) (data frame)))))"
proof (induction "unat (can_dlc frame) - i" arbitrary: i)
  case 0
  then show ?case
    by (subst str_can_frame_data.simps) simp
next
  case (Suc m)
  then have i: "i < unat (can_dlc frame)" and m: "m = unat (can_dlc frame) - Suc i"
    by simp_all
  with assms have l: "i < length (data frame)"
    by simp
  have "drop i (take (unat (can_dlc frame)) (data frame))
          = data frame ! i # drop (Suc i) (take (unat (can_dlc frame)) (data frame))"
    using i l by (simp add: Cons_nth_drop_Suc [symmetric])
  with Suc.hyps(1) [OF m] i l show ?case
    by (subst str_can_frame_data.simps) simp
qed

lemma str_can_frame_eq:
  "unat (can_dlc frame) \<le> length (data frame) \<Longrightarrow>
     str_can_frame frame = Inr (hex_frame (can_id frame) (take (unat (can_dlc frame)) (data frame)))"
  by (simp add: str_can_frame_def str_can_frame_data_eq hex_frame_def)

lemma take_payload: "take (min (length d) 12 - 4) (drop 4 d) = take 8 (drop 4 d)"
  by (cases "length d < 12") (simp_all add: min_def)

lemma decoded_frame_fields:
  assumes "4 \<le> length d"
  shows "can_id (decoded_frame d frame) = be_word (take 4 d)"
    and "unat (can_dlc (decoded_frame d frame)) = min (length d) 12 - 4"
    and "take (unat (can_dlc (decoded_frame d frame))) (data (decoded_frame d frame)) = take 8 (drop 4 d)"
proof -
  have n: "min (length d) 12 - 4 \<le> 8"
    by simp
  then have u: "unat (of_nat (min (length d) 12 - 4) :: byte) = min (length d) 12 - 4"
    by (simp add: unat_of_nat)
  show "can_id (decoded_frame d frame) = be_word (take 4 d)"
    by (simp add: decoded_frame_def)
  show "unat (can_dlc (decoded_frame d frame)) = min (length d) 12 - 4"
    by (simp add: decoded_frame_def u)
  have "length (take 8 (drop 4 d)) = min (length d) 12 - 4"
    using assms by auto
  then show "take (unat (can_dlc (decoded_frame d frame))) (data (decoded_frame d frame)) = take 8 (drop 4 d)"
    by (simp add: decoded_frame_def u take_payload)
qed

lemma payload_frame_decoded:
  "4 \<le> length d \<Longrightarrow>
     payload_frame (decoded_frame d frame) =
       \<lparr>can_id = be_word (take 4 d), can_dlc = of_nat (min (length d) 12 - 4),
        data = take 8 (drop 4 d)\<rparr>"
  using decoded_frame_fields(3) [of d frame]
  by (cases frame) (simp add: payload_frame_def, simp add: decoded_frame_def)

lemma udp_to_can_datagram_text:
  assumes "udp_recv sys = Recv_datagram d" and "4 \<le> length d" and "length d < 2 ^ 63"
  shows "udp_to_can bo conn sys =
           Inr ((if 12 < length d
                 then [Printf (str_config (config conn)) UDP_to_CAN
                         (Message_truncated (of_nat (length d)) 12)]
                 else [])
                @ [Printf (str_config (config conn)) UDP_to_CAN
                     (Frame_text (hex_frame (be_word (take 4 d)) (take 8 (drop 4 d)))),
                   Send_can (can_sfd conn) (decoded_frame d (stack_frame sys))]
                @ send_failed conn UDP_to_CAN (send_res sys))"
proof -
  let ?F = "decoded_frame d (stack_frame sys)"
  have F: "?F = (stack_frame sys)\<lparr>can_id := be_word (take 4 d), can_dlc := of_nat (min (length d) 12 - 4),
                  data := take (min (length d) 12 - 4) (drop 4 d)
                          @ drop (min (length d) 12 - 4) (data (stack_frame sys))\<rparr>"
    by (simp only: decoded_frame_def take_payload)
  have "length (take 8 (drop 4 d)) = min (length d) 12 - 4"
    using assms(2) by auto
  then have "unat (can_dlc ?F) \<le> length (data ?F)"
    using decoded_frame_fields(2) [OF assms(2), of "stack_frame sys"]
    by (simp add: decoded_frame_def)
  then have "str_can_frame ?F = Inr (hex_frame (be_word (take 4 d)) (take 8 (drop 4 d)))"
    using decoded_frame_fields [OF assms(2), of "stack_frame sys"] by (simp add: str_can_frame_eq)
  with udp_to_can_datagram [OF assms refl F, of bo conn] show ?thesis
    by auto
qed

lemma can_to_udp_frame_text:
  assumes "can_recv sys = Can_recv_frame f" and "unat (can_dlc f) \<le> 8" and "length (data f) = 8"
  shows "can_to_udp bo conn sys =
           Inr ([Printf (str_config (config conn)) CAN_to_UDP
                   (Frame_text (hex_frame (can_id f) (take (unat (can_dlc f)) (data f)))),
                 Send_udp (out_sfd conn) (be_bytes (can_id f) @ take (unat (can_dlc f)) (data f))]
                @ send_failed conn CAN_to_UDP (send_res sys))"
proof -
  have "str_can_frame f = Inr (hex_frame (can_id f) (take (unat (can_dlc f)) (data f)))"
    using assms(2,3) by (simp add: str_can_frame_eq)
  with can_to_udp_frame [OF assms, of bo conn] show ?thesis
    by auto
qed

lemma can_to_udp_stack_independent:
  assumes "bus_frame_ok (can_recv sys)" and "can_recv sys' = can_recv sys"
    and "send_res sys' = send_res sys"
  shows "can_to_udp bo conn sys' = can_to_udp bo conn sys"
proof (cases "can_recv sys")
  case (Can_recv_error e)
  with assms(2) show ?thesis
    by (simp add: can_to_udp_recv_error)
next
  case (Can_recv_frame f)
  with assms(1) have f: "unat (can_dlc f) \<le> 8" "length (data f) = 8"
    by (simp_all add: bus_frame_ok_def)
  from Can_recv_frame assms(2) have "can_recv sys' = Can_recv_frame f"
    by simp
  from can_to_udp_frame_text [OF this f, of bo conn] can_to_udp_frame_text [OF Can_recv_frame f, of bo conn]
  show ?thesis
    by (simp add: assms(3))
qed

lemma udp_to_can_stack_independent:
  assumes "udp_recv sys' = udp_recv sys" and "send_res sys' = send_res sys"
    and "udp_recv sys = Recv_error e \<or> (udp_recv sys = Recv_datagram d \<and> length d < 2 ^ 63)"
  shows "payload_events (udp_to_can bo conn sys') = payload_events (udp_to_can bo conn sys)"
proof -
  consider "udp_recv sys = Recv_error e"
    | "udp_recv sys = Recv_datagram d" "length d < 4"
    | "udp_recv sys = Recv_datagram d" "4 \<le> length d" "length d < 2 ^ 63"
    using assms(3) by fastforce
  then show ?thesis
  proof cases
    case 1
    with assms(1) show ?thesis
      by (simp add: udp_to_can_recv_error)
  next
    case 2
    with assms(1) show ?thesis
      by (simp add: udp_to_can_too_short)
  next
    case 3
    from 3(1) assms(1) have "udp_recv sys' = Recv_datagram d"
      by simp
    from udp_to_can_datagram_text [OF this 3(2,3), of bo conn]
      udp_to_can_datagram_text [OF 3, of bo conn]
    show ?thesis
      by (simp add: payload_events_def assms(2) payload_frame_decoded 3(2) send_failed_def
          split: send_result.split)
  qed
qed

lemma decoded_frame_take12:
  "12 < length d \<Longrightarrow> decoded_frame (take 12 d) frame = decoded_frame d frame"
  by (simp add: decoded_frame_def drop_take min_def)

lemma udp_to_can_oversized_text:
  assumes "udp_recv sys = Recv_datagram d" and "12 < length d" and "length d < 2 ^ 63"
  shows "udp_to_can bo conn sys =
           Inr ([Printf (str_config (config conn)) UDP_to_CAN
                   (Message_truncated (of_nat (length d)) 12),
                 Printf (str_config (config conn)) UDP_to_CAN
                   (Frame_text (hex_frame (be_word (take 4 d)) (take 8 (drop 4 d)))),
                 Send_can (can_sfd conn) (decoded_frame d (stack_frame sys))]
                @ send_failed conn UDP_to_CAN (send_res sys))"
    and "udp_to_can bo conn (sys\<lparr>udp_recv := Recv_datagram (take 12 d)\<rparr>) =
           Inr ([Printf (str_config (config conn)) UDP_to_CAN
                   (Frame_text (hex_frame (be_word (take 4 d)) (take 8 (drop 4 d)))),
                 Send_can (can_sfd conn) (decoded_frame d (stack_frame sys))]
                @ send_failed conn UDP_to_CAN (send_res sys))"
    and "can_dlc (decoded_frame d (stack_frame sys)) = 8"
proof -
  have 4: "4 \<le> length d"
    using assms(2) by simp
  show "udp_to_can bo conn sys =
           Inr ([Printf (str_config (config conn)) UDP_to_CAN
                   (Message_truncated (of_nat (length d)) 12),
                 Printf (str_config (config conn)) UDP_to_CAN
                   (Frame_text (hex_frame (be_word (take 4 d)) (take 8 (drop 4 d)))),
                 Send_can (can_sfd conn) (decoded_frame d (stack_frame sys))]
                @ send_failed conn UDP_to_CAN (send_res sys))"
    using udp_to_can_datagram_text [OF assms(1) 4 assms(3), of bo conn] assms(2) by simp
  let ?sys = "sys\<lparr>udp_recv := Recv_datagram (take 12 d)\<rparr>"
  have "udp_recv ?sys = Recv_datagram (take 12 d)" "4 \<le> length (take 12 d)"
       "length (take 12 d) < 2 ^ 63"
    using assms(2) by simp_all
  from udp_to_can_datagram_text [OF this, of bo conn] assms(2)
  show "udp_to_can bo conn ?sys =
           Inr ([Printf (str_config (config conn)) UDP_to_CAN
                   (Frame_text (hex_frame (be_word (take 4 d)) (take 8 (drop 4 d)))),
                 Send_can (can_sfd conn) (decoded_frame d (stack_frame sys))]
                @ send_failed conn UDP_to_CAN (send_res sys))"
    by (simp add: decoded_frame_take12 drop_take)
  show "can_dlc (decoded_frame d (stack_frame sys)) = 8"
    using assms(2) by (simp add: decoded_frame_def min_def)
qed

lemma udp_to_can_send_error_text:
  assumes "udp_recv sys = Recv_datagram d" and "4 \<le> length d" and "length d < 2 ^ 63"
    and "send_res sys = Send_error e"
  shows "udp_to_can bo conn sys =
           Inr ((if 12 < length d
                 then [Printf (str_config (config conn)) UDP_to_CAN
                         (Message_truncated (of_nat (length d)) 12)]
                 else [])
                @ [Printf (str_config (config conn)) UDP_to_CAN
                     (Frame_text (hex_frame (be_word (take 4 d)) (take 8 (drop 4 d)))),
                   Send_can (can_sfd conn) (decoded_frame d (stack_frame sys)),
                   Printf (str_config (config conn)) UDP_to_CAN (Send_failed e)])"
  using udp_to_can_datagram_text [OF assms(1-3), of bo conn] by (simp add: assms(4) send_failed_def)

lemma can_to_udp_send_error_text:
  assumes "can_recv sys = Can_recv_frame f" and "unat (can_dlc f) \<le> 8" and "length (data f) = 8"
    and "send_res sys = Send_error e"
  shows "can_to_udp bo conn sys =
           Inr [Printf (str_config (config conn)) CAN_to_UDP
                  (Frame_text (hex_frame (can_id f) (take (unat (can_dlc f)) (data f)))),
                Send_udp (out_sfd conn) (be_bytes (can_id f) @ take (unat (can_dlc f)) (data f)),
                Printf (str_config (config conn)) CAN_to_UDP (Send_failed e)]"
  using can_to_udp_frame_text [OF assms(1-3), of bo conn] by (simp add: assms(4) send_failed_def)

lemma str_config_second: "str_config (config second_connection) = ''vcan1:8881:127.0.0.1:9991''"
  by (simp add: str_config_def second_connection_def)

lemma hex_frame_samples:
  "hex_frame 0x123 [0xDE, 0xAD, 0xBE, 0xEF] = ''123#DEADBEEF''"
  "hex_frame 0x123 [1, 2, 3, 4, 5, 6, 7, 8] = ''123#0102030405060708''"
  "hex_frame 0xAB [0xAB] = ''0AB#AB''"
  by (simp_all add: hex_frame_def printf_X_def hex_digits.simps hex_digit_def)

lemma can_to_udp_sample_any:
  "can_to_udp bo conn sample_syscalls =
     Inr [Printf (str_config (config conn)) CAN_to_UDP (Frame_text ''123#DEADBEEF''),
          Send_udp (out_sfd conn) [0x00, 0x00, 0x01, 0x23, 0xDE, 0xAD, 0xBE, 0xEF]]"
proof -
  let ?f = "\<lparr>can_id = 0x123, can_dlc = 4, data = [0xDE, 0xAD, 0xBE, 0xEF, 0, 0, 0, 0]\<rparr>"
  have "can_to_udp bo conn sample_syscalls =
           Inr ([Printf (str_config (config conn)) CAN_to_UDP
                   (Frame_text (hex_frame (can_id ?f) (take (unat (can_dlc ?f)) (data ?f)))),
                 Send_udp (out_sfd conn) (be_bytes (can_id ?f) @ take (unat (can_dlc ?f)) (data ?f))]
                @ send_failed conn CAN_to_UDP (send_res sample_syscalls))"
    by (rule can_to_udp_frame_text) (simp_all add: sample_syscalls_def)
  then show ?thesis
    by (simp add: hex_frame_samples be_bytes_0x123) (simp add: sample_syscalls_def send_failed_def)
qed

lemma udp_to_can_sample_any:
  "udp_to_can bo conn sample_syscalls =
     Inr [Printf (str_config (config conn)) UDP_to_CAN (Frame_text ''0AB#AB''),
          Send_can (can_sfd conn) \<lparr>can_id = 0xAB, can_dlc = 1, data = [0xAB, 0, 0, 0, 0, 0, 0, 0]\<rparr>]"
proof -
  have "udp_to_can bo conn sample_syscalls =
     Inr ([Printf (str_config (config conn)) UDP_to_CAN (Frame_text ''0AB#AB''),
           Send_can (can_sfd conn)
             ((stack_frame sample_syscalls)\<lparr>can_id := 0xAB, can_dlc := 1,
                                data := 0xAB # drop 1 (data (stack_frame sample_syscalls))\<rparr>)]
          @ send_failed conn UDP_to_CAN (send_res sample_syscalls))"
    using udp_to_can_0000ABAB [of bo conn sample_syscalls]
    by (simp only: sample_syscalls_udp_recv)
  then show ?thesis
    by (simp add: sample_syscalls_def send_failed_def)
qed

lemma decoded_oversized:
  "decoded_frame oversized_datagram (stack_frame sample_syscalls) =
     \<lparr>can_id = 0x123, can_dlc = 8, data = [1, 2, 3, 4, 5, 6, 7, 8]\<rparr>"
  "be_word (take 4 oversized_datagram) = 0x123"
  "take 8 (drop 4 oversized_datagram) = [1, 2, 3, 4, 5, 6, 7, 8]"
  by (simp_all add: decoded_frame_def oversized_datagram_def sample_syscalls_def be_word_def)

lemma decoded_0000ABAB:
  "decoded_frame [0x00, 0x00, 0x00, 0xAB, 0xAB] (stack_frame sample_syscalls) =
     \<lparr>can_id = 0xAB, can_dlc = 1, data = [0xAB, 0, 0, 0, 0, 0, 0, 0]\<rparr>"
  by (simp add: decoded_frame_def sample_syscalls_def be_word_def)

section \<open>The polling loop\<close>

lemma setup_pfds_inv:
  assumes "length pfds = 2 * length connections"
    and "\<forall>k < i. fd (pfds ! (2 * k)) = can_sfd (connections ! k) \<and>
                   fd (pfds ! (2 * k + 1)) = in_sfd (connections ! k)"
    and "i \<le> length connections"
  shows "pfds_ok connections (setup_pfds connections i pfds)"
  using assms
proof (induction connections i pfds rule: setup_pfds.induct)
  case (1 connections i pfds)
  show ?case
  proof (cases "i < length connections")
    case True
    define pfds1 where "pfds1 = pfds[i * 2 := (pfds ! (i * 2))\<lparr>fd := can_sfd (connections ! i), events := POLLIN\<rparr>]"
    define pfds2 where "pfds2 = pfds1[i * 2 + 1 := (pfds1 ! (i * 2 + 1))\<lparr>fd := in_sfd (connections ! i), events := POLLIN\<rparr>]"
    have len: "length pfds2 = 2 * length connections"
      by (simp add: pfds2_def pfds1_def "1.prems"(1))
    have inv: "\<forall>k < Suc i. fd (pfds2 ! (2 * k)) = can_sfd (connections ! k) \<and>
                   fd (pfds2 ! (2 * k + 1)) = in_sfd (connections ! k)"
    proof (intro allI impI)
      fix k assume "k < Suc i"
      then consider "k < i" | "k = i" by linarith
      then show "fd (pfds2 ! (2 * k)) = can_sfd (connections ! k) \<and>
                   fd (pfds2 ! (2 * k + 1)) = in_sfd (connections ! k)"
      proof cases
        case 1
        then have "2 * k \<noteq> i * 2" "2 * k \<noteq> i * 2 + 1" "2 * k + 1 \<noteq> i * 2" "2 * k + 1 \<noteq> i * 2 + 1"
          by presburger+
        with 1 "1.prems"(2) show ?thesis
          by (simp add: pfds2_def pfds1_def)
      next
        case 2
        with True "1.prems"(1) show ?thesis
          by (simp add: pfds2_def pfds1_def mult.commute)
      qed
    qed
    have "pfds_ok connections (setup_pfds connections (Suc i) pfds2)"
      unfolding pfds2_def pfds1_def
      by (rule "1.IH" [OF True refl refl refl])
         (use len inv True in \<open>simp_all add: pfds2_def pfds1_def\<close>)
    then show ?thesis
      using True by (subst setup_pfds.simps) (simp add: pfds1_def pfds2_def Let_def)
  next
    case False
    with "1.prems" have "i = length connections" by simp
    with "1.prems" False show ?thesis
      by (subst setup_pfds.simps) (simp add: pfds_ok_def)
  qed
qed

lemma pfds_ok_poll:
  assumes "pfds_ok connections pfds" and "poll (Poll_revents rs) pfds = (ret, pfds')"
  shows "pfds_ok connections pfds'" and "\<forall>i < 2 * length connections. revents (pfds' ! i) = rs i"
    and "ret \<noteq> - 1"
  using assms by (auto simp: pfds_ok_def poll_def)

lemma scan_skip:
  "i < length connections * 2 \<Longrightarrow> revents (pfds ! i) AND POLLIN = 0 \<Longrightarrow>
     scan bo connections pfds sys i = scan bo connections pfds sys (Suc i)"
  by (subst scan.simps) simp

lemma scan_end: "\<not> i < length connections * 2 \<Longrightarrow> scan bo connections pfds sys i = Inr []"
  by (subst scan.simps) simp

lemma scan_call:
  assumes "pfds_ok connections pfds" and "i < length connections * 2"
    and "revents (pfds ! i) AND POLLIN \<noteq> 0"
  shows "scan bo connections pfds sys i =
           and_then (dispatch_call bo connections sys i) (scan bo connections pfds sys (Suc i))"
proof -
  have k: "i div 2 < length connections"
    using assms(2) by simp
  show ?thesis
  proof (cases "even i")
    case True
    then have "2 * (i div 2) = i" by simp
    with assms(1) k have "fd (pfds ! i) = can_sfd (connections ! (i div 2))"
      by (metis pfds_ok_def)
    with True assms(2,3) show ?thesis
      by (subst scan.simps) (simp add: dispatch_call_def Let_def even_iff_mod_2_eq_zero)
  next
    case False
    then have "2 * (i div 2) + 1 = i" by (simp add: odd_two_times_div_two_succ)
    with assms(1) k have "fd (pfds ! i) = in_sfd (connections ! (i div 2))"
      by (metis pfds_ok_def)
    with False assms(2,3) show ?thesis
      by (subst scan.simps) (simp add: dispatch_call_def Let_def even_iff_mod_2_eq_zero)
  qed
qed

lemma scan_dispatch:
  assumes "pfds_ok connections pfds"
    and "\<forall>i < 2 * length connections. revents (pfds ! i) = rs i"
  shows "scan bo connections pfds sys i =
           in_sequence (map (dispatch_call bo connections sys)
                          (filter (\<lambda>j. rs j AND POLLIN \<noteq> 0) [i..<2 * length connections]))"
proof (induction "2 * length connections - i" arbitrary: i)
  case 0
  then show ?case
    by (simp add: scan_end)
next
  case (Suc m)
  then have i: "i < length connections * 2" and m: "m = 2 * length connections - Suc i"
    by simp_all
  have upt: "[i..<2 * length connections] = i # [Suc i..<2 * length connections]"
    using i by (simp add: upt_conv_Cons)
  have r: "revents (pfds ! i) = rs i"
    using assms(2) i by simp
  show ?case
  proof (cases "rs i AND POLLIN = 0")
    case True
    then show ?thesis
      using Suc.hyps(1) [OF m] i r by (simp add: scan_skip upt)
  next
    case False
    then show ?thesis
      using Suc.hyps(1) [OF m] i r scan_call [OF assms(1) i, of bo sys] by (simp add: upt)
  qed
qed

lemma main_loop_spec:
  "pfds_ok connections pfds \<Longrightarrow> main_loop bo connections pfds rounds = main_spec bo connections rounds"
proof (induction rounds arbitrary: pfds)
  case Nil
  show ?case by simp
next
  case (Cons round rounds)
  obtain r sys where round: "round = (r, sys)"
    by (cases round)
  show ?case
  proof (cases r)
    case (Poll_error e)
    then show ?thesis
      by (simp add: round poll_def)
  next
    case (Poll_revents rs)
    obtain ret pfds' where p: "poll (Poll_revents rs) pfds = (ret, pfds')"
      by (cases "poll (Poll_revents rs) pfds")
    note ok = pfds_ok_poll [OF Cons.prems p]
    have "scan bo connections pfds' sys 0 = dispatch_spec bo connections rs sys"
      using scan_dispatch [OF ok(1,2), of bo sys 0] by (simp add: dispatch_spec_def readable_def)
    then show ?thesis
      using Cons.IH [OF ok(1)] ok(3) by (simp add: round Poll_revents p)
  qed
qed

lemma main_spec_eq:
  assumes "connections \<noteq> []" and "length pfds = 2 * length connections"
  shows "main bo connections pfds rounds = main_spec bo connections rounds"
proof -
  have "pfds_ok connections (setup_pfds connections 0 pfds)"
    using assms(2) by (intro setup_pfds_inv) simp_all
  then show ?thesis
    using assms(1) by (simp add: main_def main_loop_spec)
qed

lemma readable_set: "set (readable n rs) = {i. i < n \<and> rs i AND POLLIN \<noteq> 0}"
  by (auto simp: readable_def)

lemma readable_sorted: "sorted_wrt (<) (readable n rs)"
  unfolding readable_def by (rule sorted_wrt_filter) (simp add: sorted_wrt_upt)

lemma dispatch_call_even:
  "dispatch_call bo connections sys (2 * k) = can_to_udp bo (connections ! k) (sys (2 * k))"
  by (simp add: dispatch_call_def)

lemma dispatch_call_odd:
  "dispatch_call bo connections sys (2 * k + 1) = udp_to_can bo (connections ! k) (sys (2 * k + 1))"
  by (simp add: dispatch_call_def)

lemma readable_both: "readable 2 (\<lambda>i. POLLIN) = [0, 1]"
  by (simp add: readable_def POLLIN_def upt_rec)

lemma scan_all_skipped:
  assumes "\<forall>j < length connections * 2. revents (pfds ! j) AND POLLIN = 0"
  shows "scan bo connections pfds sys i = Inr []"
proof (induction "length connections * 2 - i" arbitrary: i)
  case 0
  then show ?case
    by (simp add: scan_end)
next
  case (Suc m)
  then have i: "i < length connections * 2" and m: "m = length connections * 2 - Suc i"
    by simp_all
  from assms i have "revents (pfds ! i) AND POLLIN = 0"
    by simp
  with i Suc.hyps(1) [OF m] show ?case
    by (simp add: scan_skip)
qed

lemma scan_only_POLLIN:
  assumes "length pfds = length connections * 2"
  shows "scan bo connections (map (\<lambda>p. p\<lparr>revents := revents p AND POLLIN\<rparr>) pfds) sys i
           = scan bo connections pfds sys i"
proof (induction "length connections * 2 - i" arbitrary: i)
  case 0
  then show ?case
    by (simp add: scan_end)
next
  case (Suc m)
  then have i: "i < length connections * 2" and m: "m = length connections * 2 - Suc i"
    by simp_all
  let ?pfds = "map (\<lambda>p. p\<lparr>revents := revents p AND POLLIN\<rparr>) pfds"
  have p: "?pfds ! i = (pfds ! i)\<lparr>revents := revents (pfds ! i) AND POLLIN\<rparr>"
    using i assms by simp
  have a: "revents (?pfds ! i) AND POLLIN = revents (pfds ! i) AND POLLIN" "fd (?pfds ! i) = fd (pfds ! i)"
    by (simp_all add: p and.assoc)
  show ?case
    by (subst scan.simps, subst (2) scan.simps) (simp only: a Suc.hyps(1) [OF m])
qed

lemma POLLERR_POLLHUP_not_POLLIN:
  "POLLERR AND POLLIN = 0" "POLLHUP AND POLLIN = 0" "(POLLERR OR POLLHUP) AND POLLIN = 0"
  by (simp_all add: POLLERR_def POLLHUP_def POLLIN_def)

lemma dispatch_call_returns:
  "bus_frame_ok (can_recv (sys i)) \<Longrightarrow> \<exists>evs. dispatch_call bo connections sys i = Inr evs"
  using udp_to_can_one_send [of bo "connections ! (i div 2)" "sys i"]
    can_to_udp_one_send [of "sys i" bo "connections ! (i div 2)"]
  by (auto simp: dispatch_call_def)

lemma in_sequence_returns:
  "\<forall>r \<in> set rs. \<exists>evs. r = Inr evs \<Longrightarrow> in_sequence rs = Inr (concat (map events_of rs))"
  by (induction rs) (auto simp: and_then_def events_of_def)

lemma dispatch_spec_returns:
  assumes "\<forall>i < 2 * length connections. bus_frame_ok (can_recv (sys i))"
  shows "dispatch_spec bo connections rs sys =
           Inr (concat (map (\<lambda>i. events_of (dispatch_call bo connections sys i))
                          (readable (2 * length connections) rs)))"
proof -
  have "\<forall>r \<in> set (map (dispatch_call bo connections sys) (readable (2 * length connections) rs)).
          \<exists>evs. r = Inr evs"
    using assms dispatch_call_returns by (auto simp: readable_set)
  from in_sequence_returns [OF this] show ?thesis
    by (simp add: dispatch_spec_def comp_def)
qed

lemma main_spec_returns:
  assumes "\<forall>(rs, sys) \<in> set rounds. \<forall>i < 2 * length connections. bus_frame_ok (can_recv (sys i))"
  shows "main_spec bo connections (map (\<lambda>(rs, sys). (Poll_revents rs, sys)) rounds) =
           Inr (concat (map (\<lambda>(rs, sys).
                  concat (map (\<lambda>i. events_of (dispatch_call bo connections sys i))
                            (readable (2 * length connections) rs))) rounds))"
  using assms
proof (induction rounds)
  case Nil
  show ?case by simp
next
  case (Cons round rounds)
  obtain rs sys where round: "round = (rs, sys)"
    by (cases round)
  with Cons.prems have "\<forall>i < 2 * length connections. bus_frame_ok (can_recv (sys i))"
    by simp
  from dispatch_spec_returns [OF this] Cons show ?case
    by (simp add: round and_then_def)
qed

lemma dispatch_call_local:
  "connections' ! (i div 2) = connections ! (i div 2) \<Longrightarrow> sys' i = sys i \<Longrightarrow>
     dispatch_call bo connections' sys' i = dispatch_call bo connections sys i"
  by (simp add: dispatch_call_def)

lemma readable_four: "readable 4 (\<lambda>i. POLLIN) = [0, 1, 2, 3]"
  by (simp add: readable_def POLLIN_def upt_rec)

section \<open>Properties of the codec\<close>

text \<open>
  Claim C6 (layout of the encoding). For every frame with \<open>can_dlc \<le> 8\<close>,
  \<^verbatim>\<open>pack_can_frame\<close> returns, and the \<open>sz\<close> bytes of the struct that \<^verbatim>\<open>can_to_udp\<close> then sends
  are the identifier, most significant byte first, followed by the first \<open>can_dlc\<close> bytes
  of \<open>data\<close>: \<open>4 + can_dlc\<close> bytes in all. The bytes are given by the frame alone,
  whatever the byte order of the host and the previous content of the struct. The witness
  is the frame \<^verbatim>\<open>123#DEADBEEF\<close>, sent as \<^verbatim>\<open>00 00 01 23 DE AD BE EF\<close>.
\<close>

theorem pack_can_frame_wire_layout:
  assumes "unat (can_dlc f) \<le> 8" and "length (data f) = 8"
  shows "\<exists>pf sz. pack_can_frame bo f pf0 = Inr (pf, sz)
           \<and> unat sz = 4 + unat (can_dlc f)
           \<and> length (take (unat sz) (bytes_of_packed bo pf)) = 4 + unat (can_dlc f)
           \<and> take (unat sz) (bytes_of_packed bo pf)
               = be_bytes (can_id f) @ take (unat (can_dlc f)) (data f)"
  using assms
  by (simp add: pack_ok dlc_size bytes_of_packed_def store32_htonl length_be_bytes)

theorem pack_can_frame_wire_layout_witness:
  "unat (can_dlc \<lparr>can_id = 0x123, can_dlc = 4, data = [0xDE, 0xAD, 0xBE, 0xEF, 0, 0, 0, 0]\<rparr>) \<le> 8
   \<and> length (data \<lparr>can_id = 0x123, can_dlc = 4, data = [0xDE, 0xAD, 0xBE, 0xEF, 0, 0, 0, 0]\<rparr>) = 8
   \<and> (\<exists>pf sz. pack_can_frame Little_endian
                  \<lparr>can_id = 0x123, can_dlc = 4, data = [0xDE, 0xAD, 0xBE, 0xEF, 0, 0, 0, 0]\<rparr>
                  \<lparr>p_can_id = 0, p_data = [1, 2, 3, 4, 5, 6, 7, 8]\<rparr> = Inr (pf, sz)
          \<and> unat sz = 8
          \<and> take (unat sz) (bytes_of_packed Little_endian pf)
              = [0x00, 0x00, 0x01, 0x23, 0xDE, 0xAD, 0xBE, 0xEF])"
  using pack_can_frame_wire_layout [of "\<lparr>can_id = 0x123, can_dlc = 4, data = [0xDE, 0xAD, 0xBE, 0xEF, 0, 0, 0, 0]\<rparr>"
      Little_endian "\<lparr>p_can_id = 0, p_data = [1, 2, 3, 4, 5, 6, 7, 8]\<rparr>"]
    be_bytes_0x123
  by auto

text \<open>
  Claim C5 (boundary lengths). For \<open>4 \<le> sz \<le> 12\<close>, \<^verbatim>\<open>unpack_can_frame\<close> returns a frame
  with \<open>can_dlc = sz - 4\<close>; four bytes give \<open>can_dlc = 0\<close> and no data, twelve bytes give
  \<open>can_dlc = 8\<close>.
\<close>

theorem unpack_can_frame_dlc:
  "(4 \<le> sz \<and> sz \<le> 12 \<longrightarrow>
      (\<exists>f'. unpack_can_frame bo pf sz f0 = Inr f' \<and> unat (can_dlc f') = unat sz - 4))
   \<and> (\<exists>f'. unpack_can_frame bo pf 4 f0 = Inr f' \<and> can_dlc f' = 0
            \<and> take (unat (can_dlc f')) (data f') = [])
   \<and> (\<exists>f'. unpack_can_frame bo pf 12 f0 = Inr f' \<and> can_dlc f' = 8)"
  by (simp add: unpack_ok ucast_sub4)

theorem unpack_can_frame_dlc_witness:
  "4 \<le> (5 :: size_t) \<and> (5 :: size_t) \<le> 12
   \<and> (\<exists>f'. unpack_can_frame Little_endian \<lparr>p_can_id = 0, p_data = [0xAB, 0, 0, 0, 0, 0, 0, 0]\<rparr> 5
               \<lparr>can_id = 7, can_dlc = 3, data = [1, 2, 3, 4, 5, 6, 7, 8]\<rparr> = Inr f'
             \<and> unat (can_dlc f') = 1)"
  using unpack_can_frame_dlc [of 5 Little_endian "\<lparr>p_can_id = 0, p_data = [0xAB, 0, 0, 0, 0, 0, 0, 0]\<rparr>"
      "\<lparr>can_id = 7, can_dlc = 3, data = [1, 2, 3, 4, 5, 6, 7, 8]\<rparr>"]
  by simp

text \<open>
  Claim C1 (round trip). A frame \<open>f\<close> with \<open>can_dlc \<le> 8\<close> is packed on a host of byte
  order \<open>bo\<close>; the \<open>4 + can_dlc\<close> bytes sent are received on a host of byte order \<open>bo'\<close>
  into a struct of any previous content and unpacked there with the received length. The
  frame obtained has the identifier of \<open>f\<close>, its \<open>can_dlc\<close> and its \<open>can_dlc\<close> data bytes.
  The same holds when the packed struct is unpacked directly. (The bytes of \<^verbatim>\<open>data[8]\<close> past
  \<open>can_dlc\<close> are not part of the frame and are not transmitted.)
\<close>

theorem codec_round_trip:
  assumes "unat (can_dlc f) \<le> 8" and "length (data f) = 8"
  shows "\<exists>pf sz pf' f' f''.
           pack_can_frame bo f pf0 = Inr (pf, sz)
         \<and> unat sz = 4 + unat (can_dlc f)
         \<and> recv_udp bo' (Recv_datagram (take (unat sz) (bytes_of_packed bo pf))) pf1 = (sz, 0, pf')
         \<and> unpack_can_frame bo' pf' sz f0 = Inr f'
         \<and> can_id f' = can_id f \<and> can_dlc f' = can_dlc f
         \<and> take (unat (can_dlc f')) (data f') = take (unat (can_dlc f)) (data f)
         \<and> unpack_can_frame bo pf sz f0 = Inr f''
         \<and> can_id f'' = can_id f \<and> can_dlc f'' = can_dlc f
         \<and> take (unat (can_dlc f'')) (data f'') = take (unat (can_dlc f)) (data f)"
proof -
  define n where "n = unat (can_dlc f)"
  define sz :: size_t where "sz = ucast (can_dlc f) + 4"
  define pf where "pf = \<lparr>p_can_id = htonl bo (can_id f),
                         p_data = take n (data f) @ drop n (p_data pf0)\<rparr>"
  define wire where "wire = take (unat sz) (bytes_of_packed bo pf)"
  define pf' where "pf' = packed_of_bytes bo' (take (unat sizeof_packed_can_frame) wire
                            @ drop (length wire) (bytes_of_packed bo' pf1))"
  have n8: "n \<le> 8" "n \<le> length (data f)"
    using assms by (simp_all add: n_def)
  have pack: "pack_can_frame bo f pf0 = Inr (pf, sz)"
    using assms(1) by (simp add: pack_ok pf_def sz_def n_def)
  have sz1: "unat sz = 4 + n"
    unfolding sz_def n_def by (rule dlc_size [OF assms(1)])
  have sz6: "sz = of_nat (4 + n)"
    unfolding sz_def n_def by (rule dlc_size_of_nat [OF assms(1)])
  have sz34: "4 \<le> sz" "sz \<le> 12"
    using size_bounds [OF assms(1)] unfolding sz_def by blast+
  have sz2: "unat (sz - 4) = n"
    using sz1 sz34 by (simp add: unat_sub4)
  have sz5: "(ucast (sz - 4) :: byte) = can_dlc f"
    unfolding sz_def by (rule ucast_back [OF assms(1)])
  note sz = sz1 sz2 sz34 sz5
  have wire: "wire = be_bytes (can_id f) @ take n (data f)"
    using n8 by (simp add: wire_def pf_def sz bytes_of_packed_def store32_htonl length_be_bytes)
  have len: "length wire = 4 + n"
    using n8 by (simp add: wire length_be_bytes)
  have recv: "recv_udp bo' (Recv_datagram wire) pf1 = (sz, 0, pf')"
    by (simp add: recv_udp_def pf'_def len sz6)
  have tk: "take (unat sizeof_packed_can_frame) wire = wire"
    using n8 len by (simp add: sizeof_packed)
  have "pf' = packed_of_bytes bo' (wire @ drop (4 + n) (bytes_of_packed bo' pf1))"
    by (simp only: pf'_def tk len)
  then have pf': "pf' = packed_of_bytes bo'
                    (be_bytes (can_id f) @ take n (data f) @ drop (4 + n) (bytes_of_packed bo' pf1))"
    by (simp add: wire)
  have id': "ntohl bo' (p_can_id pf') = can_id f"
    by (simp add: pf' packed_of_bytes_def length_be_bytes ntohl_load32_be_bytes)
  have data': "take n (p_data pf') = take n (data f)"
    using n8 by (simp add: pf' packed_of_bytes_def length_be_bytes)
  have id: "ntohl bo (p_can_id pf) = can_id f"
    by (cases bo) (simp_all add: pf_def ntohl_def htonl_def bswap32_bswap32)
  have data: "take n (p_data pf) = take n (data f)"
    using n8 by (simp add: pf_def)
  have lens: "n \<le> length (p_data pf')" "n \<le> length (p_data pf)"
    using n8 by (simp_all add: pf' pf_def packed_of_bytes_def length_be_bytes)
  define f' where "f' = f0\<lparr>can_id := ntohl bo' (p_can_id pf'), can_dlc := ucast (sz - 4),
                           data := take (unat (sz - 4)) (p_data pf') @ drop (unat (sz - 4)) (data f0)\<rparr>"
  define f'' where "f'' = f0\<lparr>can_id := ntohl bo (p_can_id pf), can_dlc := ucast (sz - 4),
                           data := take (unat (sz - 4)) (p_data pf) @ drop (unat (sz - 4)) (data f0)\<rparr>"
  have unpack': "unpack_can_frame bo' pf' sz f0 = Inr f'"
    unfolding f'_def by (rule unpack_ok [OF sz34])
  have unpack'': "unpack_can_frame bo pf sz f0 = Inr f''"
    unfolding f''_def by (rule unpack_ok [OF sz34])
  have f': "can_id f' = can_id f" "can_dlc f' = can_dlc f"
      "take (unat (can_dlc f')) (data f') = take (unat (can_dlc f)) (data f)"
    using lens(1) n8 by (simp_all add: f'_def id' sz2 sz5 data' n_def [symmetric])
  have f'': "can_id f'' = can_id f" "can_dlc f'' = can_dlc f"
      "take (unat (can_dlc f'')) (data f'') = take (unat (can_dlc f)) (data f)"
    using lens(2) n8 by (simp_all add: f''_def id sz2 sz5 data n_def [symmetric])
  from pack sz1 recv unpack' f' unpack'' f'' show ?thesis
    unfolding wire_def n_def by blast
qed

theorem codec_round_trip_witness:
  "unat (can_dlc \<lparr>can_id = 0x123, can_dlc = 4, data = [0xDE, 0xAD, 0xBE, 0xEF, 0, 0, 0, 0]\<rparr>) \<le> 8
   \<and> length (data \<lparr>can_id = 0x123, can_dlc = 4, data = [0xDE, 0xAD, 0xBE, 0xEF, 0, 0, 0, 0]\<rparr>) = 8
   \<and> (\<exists>pf sz pf' f'.
         pack_can_frame Little_endian
           \<lparr>can_id = 0x123, can_dlc = 4, data = [0xDE, 0xAD, 0xBE, 0xEF, 0, 0, 0, 0]\<rparr>
           \<lparr>p_can_id = 0, p_data = [1, 2, 3, 4, 5, 6, 7, 8]\<rparr> = Inr (pf, sz)
       \<and> recv_udp Big_endian (Recv_datagram (take (unat sz) (bytes_of_packed Little_endian pf)))
           \<lparr>p_can_id = 9, p_data = [8, 7, 6, 5, 4, 3, 2, 1]\<rparr> = (sz, 0, pf')
       \<and> unpack_can_frame Big_endian pf' sz
           \<lparr>can_id = 7, can_dlc = 3, data = [1, 2, 3, 4, 5, 6, 7, 8]\<rparr> = Inr f'
       \<and> can_id f' = 0x123 \<and> can_dlc f' = 4
       \<and> take (unat (can_dlc f')) (data f') = [0xDE, 0xAD, 0xBE, 0xEF])"
  using codec_round_trip [of "\<lparr>can_id = 0x123, can_dlc = 4, data = [0xDE, 0xAD, 0xBE, 0xEF, 0, 0, 0, 0]\<rparr>"
      Little_endian "\<lparr>p_can_id = 0, p_data = [1, 2, 3, 4, 5, 6, 7, 8]\<rparr>"
      Big_endian "\<lparr>p_can_id = 9, p_data = [8, 7, 6, 5, 4, 3, 2, 1]\<rparr>"
      "\<lparr>can_id = 7, can_dlc = 3, data = [1, 2, 3, 4, 5, 6, 7, 8]\<rparr>"]
  by auto

section \<open>Properties of the forwarding operations\<close>

text \<open>
  Claim C2 (end-to-end scenario 2), as amended. The datagram \<^verbatim>\<open>00 00 00 AB AB\<close> makes
  \<^verbatim>\<open>udp_to_can\<close> print the frame as \<^verbatim>\<open>0AB#AB\<close> and write to the CAN socket a frame with
  identifier \<open>0xAB\<close>, \<open>can_dlc = 1\<close> and the data byte \<open>0xAB\<close>: the first four bytes are
  the identifier, so the first \<^verbatim>\<open>AB\<close> belongs to it.
\<close>

theorem scenario_2_frame:
  "\<exists>frame. udp_to_can bo conn (sys\<lparr>udp_recv := Recv_datagram [0x00, 0x00, 0x00, 0xAB, 0xAB]\<rparr>) =
             Inr ([Printf (str_config (config conn)) UDP_to_CAN (Frame_text ''0AB#AB''),
                   Send_can (can_sfd conn) frame]
                  @ send_failed conn UDP_to_CAN (send_res sys))
         \<and> can_id frame = 0xAB \<and> can_dlc frame = 1
         \<and> take (unat (can_dlc frame)) (data frame) = [0xAB]"
  by (simp add: udp_to_can_0000ABAB)

text \<open>
  Claim C2 as stated asks for the identifier \<open>0x00\<close>. On the sample connection the frame
  written has the identifier \<open>0xAB\<close>.
\<close>

theorem scenario_2_counterexample:
  "udp_to_can Little_endian sample_connection sample_syscalls =
     Inr [Printf ''vcan0:8880:127.0.0.1:9990'' UDP_to_CAN (Frame_text ''0AB#AB''),
          Send_can 3 \<lparr>can_id = 0xAB, can_dlc = 1, data = [0xAB, 0, 0, 0, 0, 0, 0, 0]\<rparr>]
   \<and> can_id \<lparr>can_id = 0xAB, can_dlc = 1, data = [0xAB, 0, 0, 0, 0, 0, 0, 0]\<rparr> \<noteq> 0x00"
proof -
  have "udp_to_can Little_endian sample_connection sample_syscalls =
     Inr ([Printf (str_config (config sample_connection)) UDP_to_CAN (Frame_text ''0AB#AB''),
           Send_can (can_sfd sample_connection)
             ((stack_frame sample_syscalls)\<lparr>can_id := 0xAB, can_dlc := 1,
                                data := 0xAB # drop 1 (data (stack_frame sample_syscalls))\<rparr>)]
          @ send_failed sample_connection UDP_to_CAN (send_res sample_syscalls))"
    using udp_to_can_0000ABAB [of Little_endian sample_connection sample_syscalls]
    by (simp only: sample_syscalls_udp_recv)
  then show ?thesis
    by (simp add: str_config_sample) (simp add: sample_connection_def sample_syscalls_def send_failed_def)
qed

text \<open>
  Claim C3 (truncation). A datagram \<open>d\<close> of more than twelve bytes makes \<^verbatim>\<open>udp_to_can\<close> print
  the truncation message and then do what it does for the first twelve bytes of \<open>d\<close>
  received alone: the same line for the same frame, written to the CAN socket. The frame
  has the identifier in bytes 0 to 3 and the eight data bytes 4 to 11. The length \<open>d\<close> has
  is one \<^verbatim>\<open>recv\<close> can return, a non-negative \<^verbatim>\<open>ssize_t\<close>.
\<close>

theorem truncation_equivalence:
  assumes "12 < length d" and "length d < 2 ^ 63"
  shows "\<exists>s F. udp_to_can bo conn (sys\<lparr>udp_recv := Recv_datagram (take 12 d)\<rparr>) =
                 Inr ([Printf (str_config (config conn)) UDP_to_CAN (Frame_text s),
                       Send_can (can_sfd conn) F]
                      @ send_failed conn UDP_to_CAN (send_res sys))
             \<and> udp_to_can bo conn (sys\<lparr>udp_recv := Recv_datagram d\<rparr>) =
                 Inr ([Printf (str_config (config conn)) UDP_to_CAN
                         (Message_truncated (of_nat (length d)) 12),
                       Printf (str_config (config conn)) UDP_to_CAN (Frame_text s),
                       Send_can (can_sfd conn) F]
                      @ send_failed conn UDP_to_CAN (send_res sys))
             \<and> can_id F = be_word (take 4 d) \<and> can_dlc F = 8
             \<and> take (unat (can_dlc F)) (data F) = take 8 (drop 4 d)"
proof -
  define F where "F = (stack_frame sys)\<lparr>can_id := be_word (take 4 d), can_dlc := 8,
                  data := take 8 (drop 4 d) @ drop 8 (data (stack_frame sys))\<rparr>"
  have "can_id F = be_word (take 4 d)" "can_dlc F = 8"
       "take (unat (can_dlc F)) (data F) = take 8 (drop 4 d)"
    using assms(1) by (simp_all add: F_def)
  with udp_to_can_truncated [OF assms F_def, of bo conn] show ?thesis
    by blast
qed

theorem truncation_equivalence_witness:
  "12 < length oversized_datagram \<and> length oversized_datagram < 2 ^ 63
   \<and> (\<exists>s F. udp_to_can Little_endian sample_connection
                (sample_syscalls\<lparr>udp_recv := Recv_datagram (take 12 oversized_datagram)\<rparr>) =
                 Inr [Printf ''vcan0:8880:127.0.0.1:9990'' UDP_to_CAN (Frame_text s), Send_can 3 F]
             \<and> udp_to_can Little_endian sample_connection
                (sample_syscalls\<lparr>udp_recv := Recv_datagram oversized_datagram\<rparr>) =
                 Inr [Printf ''vcan0:8880:127.0.0.1:9990'' UDP_to_CAN (Message_truncated 13 12),
                      Printf ''vcan0:8880:127.0.0.1:9990'' UDP_to_CAN (Frame_text s), Send_can 3 F]
             \<and> can_id F = 0x123 \<and> can_dlc F = 8
             \<and> take (unat (can_dlc F)) (data F) = [1, 2, 3, 4, 5, 6, 7, 8])"
proof -
  have 1: "12 < length oversized_datagram" "length oversized_datagram < 2 ^ 63"
    by (simp_all add: oversized_datagram_def)
  have 2: "be_word (take 4 oversized_datagram) = 0x123"
          "take 8 (drop 4 oversized_datagram) = [1, 2, 3, 4, 5, 6, 7, 8]"
          "length oversized_datagram = 13"
    by (simp_all add: oversized_datagram_def be_word_def)
  have 3: "send_failed sample_connection UDP_to_CAN (send_res sample_syscalls) = []"
          "can_sfd sample_connection = 3"
    by (simp_all add: sample_syscalls_def sample_connection_def send_failed_def)
  from truncation_equivalence [OF 1, of Little_endian sample_connection sample_syscalls] 1 show ?thesis
    by (simp add: 2 3 str_config_sample)
qed

text \<open>
  Claim C4 (rejection). When the datagram has fewer than four bytes, or \<^verbatim>\<open>recv\<close> fails,
  \<^verbatim>\<open>udp_to_can\<close> returns after printing one line: nothing is written to the CAN socket
  (no event of the call is a write).
\<close>

theorem rejection_leaves_bus_untouched:
  "(udp_recv sys = Recv_datagram d \<and> length d < 4 \<longrightarrow>
      udp_to_can bo conn sys =
        Inr [Printf (str_config (config conn)) UDP_to_CAN
               (Message_too_short (of_nat (length d)) PACKED_CAN_FRAME_HDR_SIZE)])
   \<and> (udp_recv sys = Recv_error e \<longrightarrow>
      udp_to_can bo conn sys = Inr [Printf (str_config (config conn)) UDP_to_CAN (Recv_failed e)])
   \<and> ((udp_recv sys = Recv_datagram d \<and> length d < 4) \<or> udp_recv sys = Recv_error e \<longrightarrow>
      filter is_send (events_of (udp_to_can bo conn sys)) = [])"
  by (auto simp: udp_to_can_too_short udp_to_can_recv_error hdr_size events_of_def)

theorem rejection_leaves_bus_untouched_witness:
  "length [0x01, 0x02, 0x03 :: byte] < 4
   \<and> udp_to_can Little_endian sample_connection
        (sample_syscalls\<lparr>udp_recv := Recv_datagram [0x01, 0x02, 0x03]\<rparr>) =
        Inr [Printf ''vcan0:8880:127.0.0.1:9990'' UDP_to_CAN (Message_too_short 3 4)]
   \<and> udp_to_can Little_endian sample_connection (sample_syscalls\<lparr>udp_recv := Recv_error 11\<rparr>) =
        Inr [Printf ''vcan0:8880:127.0.0.1:9990'' UDP_to_CAN (Recv_failed 11)]
   \<and> filter is_send (events_of (udp_to_can Little_endian sample_connection
        (sample_syscalls\<lparr>udp_recv := Recv_datagram [0x01, 0x02, 0x03]\<rparr>))) = []
   \<and> filter is_send (events_of (udp_to_can Little_endian sample_connection
        (sample_syscalls\<lparr>udp_recv := Recv_error 11\<rparr>))) = []"
  using rejection_leaves_bus_untouched [of "sample_syscalls\<lparr>udp_recv := Recv_datagram [0x01, 0x02, 0x03]\<rparr>"
      "[0x01, 0x02, 0x03]" Little_endian sample_connection 11]
    rejection_leaves_bus_untouched [of "sample_syscalls\<lparr>udp_recv := Recv_error 11\<rparr>"
      "[]" Little_endian sample_connection 11]
  by (simp add: str_config_sample hdr_size events_of_def)

text \<open>
  Claim C9 (the assertions of \<^verbatim>\<open>unpack_can_frame\<close> cannot fail in \<^verbatim>\<open>udp_to_can\<close>). A size
  \<open>sz\<close> that passes the check against the header size, cut to the size of the struct when
  larger, lies between 4 and 12, so both assertions hold and \<^verbatim>\<open>unpack_can_frame\<close> returns
  a frame. Whatever the system answers, \<^verbatim>\<open>udp_to_can\<close> returns and no assertion fails.
\<close>

theorem unpack_assertions_unreachable:
  "(\<not> sz < PACKED_CAN_FRAME_HDR_SIZE \<and>
    sz' = (if sz > sizeof_packed_can_frame then sizeof_packed_can_frame else sz) \<longrightarrow>
      4 \<le> sz' \<and> sz' \<le> 12
      \<and> sz' \<le> sizeof_packed_can_frame
      \<and> sz' - PACKED_CAN_FRAME_HDR_SIZE \<le> of_nat PACKED_CAN_FRAME_MAX_DATA_SIZE
      \<and> (\<exists>frame. unpack_can_frame bo pf sz' f0 = Inr frame))
   \<and> (\<exists>evs. udp_to_can bo conn sys = Inr evs)
   \<and> udp_to_can bo conn sys \<noteq> Inl Assertion_failed"
proof -
  have "4 \<le> sz' \<and> sz' \<le> 12
      \<and> sz' \<le> sizeof_packed_can_frame
      \<and> sz' - PACKED_CAN_FRAME_HDR_SIZE \<le> of_nat PACKED_CAN_FRAME_MAX_DATA_SIZE
      \<and> (\<exists>frame. unpack_can_frame bo pf sz' f0 = Inr frame)"
    if "\<not> sz < PACKED_CAN_FRAME_HDR_SIZE"
      and "sz' = (if sz > sizeof_packed_can_frame then sizeof_packed_can_frame else sz)"
  proof -
    have b: "4 \<le> sz'" "sz' \<le> 12"
      using guards_bound [OF that] by simp_all
    have "unat (sz' - 4) \<le> 8"
      by (rule unat_ucast_sub4 [OF b])
    then have "sz' - 4 \<le> 8"
      by (simp add: word_le_nat_alt)
    with b show ?thesis
      by (simp add: unpack_ok hdr_size sizeof_packed PACKED_CAN_FRAME_MAX_DATA_SIZE_def)
  qed
  moreover obtain evs where "udp_to_can bo conn sys = Inr evs"
    using udp_to_can_returns by blast
  ultimately show ?thesis
    by auto
qed

theorem unpack_assertions_unreachable_witness:
  "\<not> (65507 :: size_t) < PACKED_CAN_FRAME_HDR_SIZE
   \<and> (12 :: size_t) = (if 65507 > sizeof_packed_can_frame then sizeof_packed_can_frame else 65507)
   \<and> (12 :: size_t) \<le> sizeof_packed_can_frame
   \<and> (12 :: size_t) - PACKED_CAN_FRAME_HDR_SIZE \<le> of_nat PACKED_CAN_FRAME_MAX_DATA_SIZE
   \<and> (\<exists>frame. unpack_can_frame Little_endian (stack_packed_frame sample_syscalls) 12
                  (stack_frame sample_syscalls) = Inr frame)
   \<and> udp_to_can Little_endian sample_connection sample_syscalls \<noteq> Inl Assertion_failed"
  using unpack_assertions_unreachable [of 65507 12 Little_endian "stack_packed_frame sample_syscalls"
      "stack_frame sample_syscalls" sample_connection sample_syscalls]
  by (simp add: hdr_size sizeof_packed)

text \<open>
  Claim C8 (recoverable errors), as amended. A failed \<^verbatim>\<open>recv\<close> on either socket and a
  datagram of fewer than four bytes make the call print one line and return, with nothing
  sent. A failed \<^verbatim>\<open>send\<close> on either socket is followed by one more line and the return:
  the send is attempted once. A datagram \<open>d\<close> of more than twelve bytes is not skipped: the
  call prints the truncation message and then does what it does for the first twelve bytes
  of \<open>d\<close> received alone, that is, it prints and writes to the CAN socket the frame
  \<open>decoded_frame d\<close>, with the identifier in bytes 0 to 3, \<open>can_dlc = 8\<close> and the data
  bytes 4 to 11. In every case the events of the call are given in full.
  \<^verbatim>\<open>udp_to_can\<close> returns whatever the system answers, \<^verbatim>\<open>can_to_udp\<close> returns for every frame
  the kernel can deliver (at most eight data bytes), and no call sends more than once.
  What a call does is given by its connection and by what the system answers during that
  call: \<^verbatim>\<open>can_to_udp\<close> does not depend on what its locals held before, and \<^verbatim>\<open>udp_to_can\<close>
  depends on it only in the bytes of \<^verbatim>\<open>data[8]\<close> past \<open>can_dlc\<close>, which are not part of
  the frame. In the loop, as long as \<^verbatim>\<open>poll\<close> succeeds, the events of a run are those of the
  calls made for the readable descriptors, one call after the other, each call on the
  connection that owns the descriptor and with its own answers. The witness runs two
  connections: every call on the first fails in a round and the second forwards as it does
  in the round where nothing fails.
\<close>

theorem recoverable_errors_stay_local:
  "(udp_recv sys = Recv_error e \<longrightarrow>
      udp_to_can bo conn sys = Inr [Printf (str_config (config conn)) UDP_to_CAN (Recv_failed e)])
   \<and> (udp_recv sys = Recv_datagram d \<and> length d < 4 \<longrightarrow>
      udp_to_can bo conn sys =
        Inr [Printf (str_config (config conn)) UDP_to_CAN (Message_too_short (of_nat (length d)) 4)])
   \<and> (udp_recv sys = Recv_datagram d \<and> 12 < length d \<and> length d < 2 ^ 63 \<longrightarrow>
      udp_to_can bo conn sys =
        Inr ([Printf (str_config (config conn)) UDP_to_CAN
                (Message_truncated (of_nat (length d)) 12),
              Printf (str_config (config conn)) UDP_to_CAN
                (Frame_text (hex_frame (be_word (take 4 d)) (take 8 (drop 4 d)))),
              Send_can (can_sfd conn) (decoded_frame d (stack_frame sys))]
             @ send_failed conn UDP_to_CAN (send_res sys))
      \<and> udp_to_can bo conn (sys\<lparr>udp_recv := Recv_datagram (take 12 d)\<rparr>) =
        Inr ([Printf (str_config (config conn)) UDP_to_CAN
                (Frame_text (hex_frame (be_word (take 4 d)) (take 8 (drop 4 d)))),
              Send_can (can_sfd conn) (decoded_frame d (stack_frame sys))]
             @ send_failed conn UDP_to_CAN (send_res sys))
      \<and> can_dlc (decoded_frame d (stack_frame sys)) = 8)
   \<and> (4 \<le> length d \<longrightarrow>
      can_id (decoded_frame d frame) = be_word (take 4 d)
      \<and> unat (can_dlc (decoded_frame d frame)) = min (length d) 12 - 4
      \<and> take (unat (can_dlc (decoded_frame d frame))) (data (decoded_frame d frame))
          = take 8 (drop 4 d))
   \<and> (udp_recv sys = Recv_datagram d \<and> 4 \<le> length d \<and> length d < 2 ^ 63
        \<and> send_res sys = Send_error e \<longrightarrow>
      udp_to_can bo conn sys =
        Inr ((if 12 < length d
              then [Printf (str_config (config conn)) UDP_to_CAN
                      (Message_truncated (of_nat (length d)) 12)]
              else [])
             @ [Printf (str_config (config conn)) UDP_to_CAN
                  (Frame_text (hex_frame (be_word (take 4 d)) (take 8 (drop 4 d)))),
                Send_can (can_sfd conn) (decoded_frame d (stack_frame sys)),
                Printf (str_config (config conn)) UDP_to_CAN (Send_failed e)]))
   \<and> (can_recv sys = Can_recv_error e \<longrightarrow>
      can_to_udp bo conn sys = Inr [Printf (str_config (config conn)) CAN_to_UDP (Recv_failed e)])
   \<and> (can_recv sys = Can_recv_frame f \<and> unat (can_dlc f) \<le> 8 \<and> length (data f) = 8
        \<and> send_res sys = Send_error e \<longrightarrow>
      can_to_udp bo conn sys =
        Inr [Printf (str_config (config conn)) CAN_to_UDP
               (Frame_text (hex_frame (can_id f) (take (unat (can_dlc f)) (data f)))),
             Send_udp (out_sfd conn) (be_bytes (can_id f) @ take (unat (can_dlc f)) (data f)),
             Printf (str_config (config conn)) CAN_to_UDP (Send_failed e)])
   \<and> (\<exists>evs. udp_to_can bo conn sys = Inr evs \<and> length (filter is_send evs) \<le> 1)
   \<and> (bus_frame_ok (can_recv sys) \<longrightarrow>
      (\<exists>evs. can_to_udp bo conn sys = Inr evs \<and> length (filter is_send evs) \<le> 1))
   \<and> (bus_frame_ok (can_recv sys) \<and> can_recv sys' = can_recv sys \<and> send_res sys' = send_res sys \<longrightarrow>
      can_to_udp bo conn sys' = can_to_udp bo conn sys)
   \<and> (udp_recv sys' = udp_recv sys \<and> send_res sys' = send_res sys
        \<and> (udp_recv sys = Recv_error e \<or> (udp_recv sys = Recv_datagram d \<and> length d < 2 ^ 63)) \<longrightarrow>
      payload_events (udp_to_can bo conn sys') = payload_events (udp_to_can bo conn sys))
   \<and> (connections' ! (i div 2) = connections ! (i div 2) \<and> env' i = env i \<longrightarrow>
      dispatch_call bo connections' env' i = dispatch_call bo connections env i)
   \<and> (connections \<noteq> [] \<and> length pfds = 2 * length connections
        \<and> (\<forall>(rs, env) \<in> set rounds. \<forall>i < 2 * length connections. bus_frame_ok (can_recv (env i)))
      \<longrightarrow>
      main bo connections pfds (map (\<lambda>(rs, env). (Poll_revents rs, env)) rounds) =
        Inr (concat (map (\<lambda>(rs, env).
               concat (map (\<lambda>i. events_of (dispatch_call bo connections env i))
                         (readable (2 * length connections) rs))) rounds)))"
proof (intro conjI impI)
  show "\<exists>evs. udp_to_can bo conn sys = Inr evs \<and> length (filter is_send evs) \<le> 1"
    by (rule udp_to_can_one_send)
next
  assume "connections \<noteq> [] \<and> length pfds = 2 * length connections
        \<and> (\<forall>(rs, env) \<in> set rounds. \<forall>i < 2 * length connections. bus_frame_ok (can_recv (env i)))"
  then show "main bo connections pfds (map (\<lambda>(rs, env). (Poll_revents rs, env)) rounds) =
        Inr (concat (map (\<lambda>(rs, env).
               concat (map (\<lambda>i. events_of (dispatch_call bo connections env i))
                         (readable (2 * length connections) rs))) rounds))"
    by (simp add: main_spec_eq main_spec_returns)
qed (blast intro: udp_to_can_recv_error udp_to_can_too_short udp_to_can_oversized_text
      decoded_frame_fields udp_to_can_send_error_text can_to_udp_recv_error
      can_to_udp_send_error_text can_to_udp_one_send can_to_udp_stack_independent
      udp_to_can_stack_independent dispatch_call_local)+

theorem recoverable_errors_stay_local_witness:
  "udp_recv failing_syscalls = Recv_error 11
   \<and> udp_to_can Little_endian sample_connection failing_syscalls =
       Inr [Printf ''vcan0:8880:127.0.0.1:9990'' UDP_to_CAN (Recv_failed 11)]
   \<and> can_recv failing_syscalls = Can_recv_error 100
   \<and> can_to_udp Little_endian sample_connection failing_syscalls =
       Inr [Printf ''vcan0:8880:127.0.0.1:9990'' CAN_to_UDP (Recv_failed 100)]
   \<and> length [0x01, 0x02, 0x03 :: byte] < 4
   \<and> udp_to_can Little_endian sample_connection
        (sample_syscalls\<lparr>udp_recv := Recv_datagram [0x01, 0x02, 0x03]\<rparr>) =
       Inr [Printf ''vcan0:8880:127.0.0.1:9990'' UDP_to_CAN (Message_too_short 3 4)]
   \<and> 12 < length oversized_datagram \<and> length oversized_datagram < 2 ^ 63
   \<and> udp_to_can Little_endian sample_connection
        (sample_syscalls\<lparr>udp_recv := Recv_datagram oversized_datagram\<rparr>) =
       Inr [Printf ''vcan0:8880:127.0.0.1:9990'' UDP_to_CAN (Message_truncated 13 12),
            Printf ''vcan0:8880:127.0.0.1:9990'' UDP_to_CAN (Frame_text ''123#0102030405060708''),
            Send_can 3 \<lparr>can_id = 0x123, can_dlc = 8, data = [1, 2, 3, 4, 5, 6, 7, 8]\<rparr>]
   \<and> send_res (sample_syscalls\<lparr>send_res := Send_error 105\<rparr>) = Send_error 105
   \<and> udp_to_can Little_endian sample_connection (sample_syscalls\<lparr>send_res := Send_error 105\<rparr>) =
       Inr [Printf ''vcan0:8880:127.0.0.1:9990'' UDP_to_CAN (Frame_text ''0AB#AB''),
            Send_can 3 \<lparr>can_id = 0xAB, can_dlc = 1, data = [0xAB, 0, 0, 0, 0, 0, 0, 0]\<rparr>,
            Printf ''vcan0:8880:127.0.0.1:9990'' UDP_to_CAN (Send_failed 105)]
   \<and> can_to_udp Little_endian sample_connection (sample_syscalls\<lparr>send_res := Send_error 105\<rparr>) =
       Inr [Printf ''vcan0:8880:127.0.0.1:9990'' CAN_to_UDP (Frame_text ''123#DEADBEEF''),
            Send_udp 5 [0x00, 0x00, 0x01, 0x23, 0xDE, 0xAD, 0xBE, 0xEF],
            Printf ''vcan0:8880:127.0.0.1:9990'' CAN_to_UDP (Send_failed 105)]
   \<and> bus_frame_ok (can_recv failing_syscalls) \<and> bus_frame_ok (can_recv sample_syscalls)
   \<and> main Little_endian [sample_connection, second_connection]
        [\<lparr>fd = 0, events = 0, revents = 0\<rparr>, \<lparr>fd = 0, events = 0, revents = 0\<rparr>,
         \<lparr>fd = 0, events = 0, revents = 0\<rparr>, \<lparr>fd = 0, events = 0, revents = 0\<rparr>]
        [(Poll_revents (\<lambda>i. POLLIN), \<lambda>i. if i < 2 then failing_syscalls else sample_syscalls),
         (Poll_revents (\<lambda>i. POLLIN), \<lambda>i. sample_syscalls)] =
       Inr [Printf ''vcan0:8880:127.0.0.1:9990'' CAN_to_UDP (Recv_failed 100),
            Printf ''vcan0:8880:127.0.0.1:9990'' UDP_to_CAN (Recv_failed 11),
            Printf ''vcan1:8881:127.0.0.1:9991'' CAN_to_UDP (Frame_text ''123#DEADBEEF''),
            Send_udp 8 [0x00, 0x00, 0x01, 0x23, 0xDE, 0xAD, 0xBE, 0xEF],
            Printf ''vcan1:8881:127.0.0.1:9991'' UDP_to_CAN (Frame_text ''0AB#AB''),
            Send_can 6 \<lparr>can_id = 0xAB, can_dlc = 1, data = [0xAB, 0, 0, 0, 0, 0, 0, 0]\<rparr>,
            Printf ''vcan0:8880:127.0.0.1:9990'' CAN_to_UDP (Frame_text ''123#DEADBEEF''),
            Send_udp 5 [0x00, 0x00, 0x01, 0x23, 0xDE, 0xAD, 0xBE, 0xEF],
            Printf ''vcan0:8880:127.0.0.1:9990'' UDP_to_CAN (Frame_text ''0AB#AB''),
            Send_can 3 \<lparr>can_id = 0xAB, can_dlc = 1, data = [0xAB, 0, 0, 0, 0, 0, 0, 0]\<rparr>,
            Printf ''vcan1:8881:127.0.0.1:9991'' CAN_to_UDP (Frame_text ''123#DEADBEEF''),
            Send_udp 8 [0x00, 0x00, 0x01, 0x23, 0xDE, 0xAD, 0xBE, 0xEF],
            Printf ''vcan1:8881:127.0.0.1:9991'' UDP_to_CAN (Frame_text ''0AB#AB''),
            Send_can 6 \<lparr>can_id = 0xAB, can_dlc = 1, data = [0xAB, 0, 0, 0, 0, 0, 0, 0]\<rparr>]"
proof -
  let ?cfg = "''vcan0:8880:127.0.0.1:9990''"
  let ?short = "sample_syscalls\<lparr>udp_recv := Recv_datagram [0x01, 0x02, 0x03]\<rparr>"
  let ?over = "sample_syscalls\<lparr>udp_recv := Recv_datagram oversized_datagram\<rparr>"
  let ?nosend = "sample_syscalls\<lparr>send_res := Send_error 105\<rparr>"
  let ?f = "\<lparr>can_id = 0x123, can_dlc = 4, data = [0xDE, 0xAD, 0xBE, 0xEF, 0, 0, 0, 0]\<rparr>"
  let ?p = "\<lparr>fd = 0, events = 0, revents = 0\<rparr>"
  let ?rounds = "[(\<lambda>i. POLLIN, \<lambda>i. if i < 2 then failing_syscalls else sample_syscalls),
                  (\<lambda>i. POLLIN, \<lambda>i. sample_syscalls)]"
  have fds: "can_sfd sample_connection = 3" "out_sfd sample_connection = 5"
      "can_sfd second_connection = 6" "out_sfd second_connection = 8"
    by (simp_all add: sample_connection_def second_connection_def)
  have ok: "bus_frame_ok (can_recv failing_syscalls)" "bus_frame_ok (can_recv sample_syscalls)"
    by (simp_all add: bus_frame_ok_def failing_syscalls_def sample_syscalls_def)
  have a: "udp_recv failing_syscalls = Recv_error 11" "can_recv failing_syscalls = Can_recv_error 100"
    by (simp_all add: failing_syscalls_def)
  have 1: "udp_to_can Little_endian sample_connection failing_syscalls =
             Inr [Printf ?cfg UDP_to_CAN (Recv_failed 11)]"
    using recoverable_errors_stay_local [where sys = failing_syscalls and e = 11
        and bo = Little_endian and conn = sample_connection] a
    by (simp add: str_config_sample)
  have 2: "can_to_udp Little_endian sample_connection failing_syscalls =
             Inr [Printf ?cfg CAN_to_UDP (Recv_failed 100)]"
    using recoverable_errors_stay_local [where sys = failing_syscalls and e = 100
        and bo = Little_endian and conn = sample_connection] a
    by (simp add: str_config_sample)
  have 3: "udp_to_can Little_endian sample_connection ?short =
             Inr [Printf ?cfg UDP_to_CAN (Message_too_short 3 4)]"
    using recoverable_errors_stay_local [where sys = ?short and d = "[0x01, 0x02, 0x03]"
        and bo = Little_endian and conn = sample_connection]
    by (simp add: str_config_sample)
  have len: "12 < length oversized_datagram" "length oversized_datagram < 2 ^ 63"
      "length oversized_datagram = 13"
    by (simp_all add: oversized_datagram_def)
  have st: "stack_frame ?over = stack_frame sample_syscalls" "send_res ?over = Send_ok"
      "udp_recv sample_syscalls = Recv_datagram [0x00, 0x00, 0x00, 0xAB, 0xAB]"
      "can_recv sample_syscalls = Can_recv_frame ?f"
    by (simp_all add: sample_syscalls_def)
  have 4: "udp_to_can Little_endian sample_connection ?over =
       Inr [Printf ?cfg UDP_to_CAN (Message_truncated 13 12),
            Printf ?cfg UDP_to_CAN (Frame_text ''123#0102030405060708''),
            Send_can 3 \<lparr>can_id = 0x123, can_dlc = 8, data = [1, 2, 3, 4, 5, 6, 7, 8]\<rparr>]"
    using recoverable_errors_stay_local [where sys = ?over and d = oversized_datagram
        and bo = Little_endian and conn = sample_connection] len
    by (simp add: str_config_sample fds st decoded_oversized hex_frame_samples send_failed_def)
  have 5: "udp_to_can Little_endian sample_connection ?nosend =
       Inr [Printf ?cfg UDP_to_CAN (Frame_text ''0AB#AB''),
            Send_can 3 \<lparr>can_id = 0xAB, can_dlc = 1, data = [0xAB, 0, 0, 0, 0, 0, 0, 0]\<rparr>,
            Printf ?cfg UDP_to_CAN (Send_failed 105)]"
    using recoverable_errors_stay_local [where sys = ?nosend and d = "[0x00, 0x00, 0x00, 0xAB, 0xAB]"
        and e = 105 and bo = Little_endian and conn = sample_connection] decoded_0000ABAB
    by (simp add: str_config_sample fds st hex_frame_samples be_word_0xAB)
  have 6: "can_to_udp Little_endian sample_connection ?nosend =
       Inr [Printf ?cfg CAN_to_UDP (Frame_text ''123#DEADBEEF''),
            Send_udp 5 [0x00, 0x00, 0x01, 0x23, 0xDE, 0xAD, 0xBE, 0xEF],
            Printf ?cfg CAN_to_UDP (Send_failed 105)]"
    using recoverable_errors_stay_local [where sys = ?nosend and f = ?f
        and e = 105 and bo = Little_endian and conn = sample_connection]
    by (simp add: str_config_sample fds st hex_frame_samples be_bytes_0x123)
  have "main Little_endian [sample_connection, second_connection] [?p, ?p, ?p, ?p]
          (map (\<lambda>(rs, env). (Poll_revents rs, env)) ?rounds) =
        Inr (concat (map (\<lambda>(rs, env).
               concat (map (\<lambda>i. events_of
                         (dispatch_call Little_endian [sample_connection, second_connection] env i))
                         (readable (2 * length [sample_connection, second_connection]) rs)))
             ?rounds))"
  proof -
    have "[sample_connection, second_connection] \<noteq> []
          \<and> length [?p, ?p, ?p, ?p] = 2 * length [sample_connection, second_connection]
          \<and> (\<forall>(rs, env) \<in> set ?rounds. \<forall>i < 2 * length [sample_connection, second_connection].
                 bus_frame_ok (can_recv (env i)))"
      by (simp add: ok)
    with recoverable_errors_stay_local [where connections = "[sample_connection, second_connection]"
        and pfds = "[?p, ?p, ?p, ?p]" and rounds = ?rounds and bo = Little_endian,
        THEN conjunct2, THEN conjunct2, THEN conjunct2, THEN conjunct2, THEN conjunct2,
        THEN conjunct2, THEN conjunct2, THEN conjunct2, THEN conjunct2, THEN conjunct2,
        THEN conjunct2, THEN conjunct2]
    show ?thesis
      by (rule mp)
  qed
  then have 7: "main Little_endian [sample_connection, second_connection] [?p, ?p, ?p, ?p]
        [(Poll_revents (\<lambda>i. POLLIN), \<lambda>i. if i < 2 then failing_syscalls else sample_syscalls),
         (Poll_revents (\<lambda>i. POLLIN), \<lambda>i. sample_syscalls)] =
       Inr [Printf ''vcan0:8880:127.0.0.1:9990'' CAN_to_UDP (Recv_failed 100),
            Printf ''vcan0:8880:127.0.0.1:9990'' UDP_to_CAN (Recv_failed 11),
            Printf ''vcan1:8881:127.0.0.1:9991'' CAN_to_UDP (Frame_text ''123#DEADBEEF''),
            Send_udp 8 [0x00, 0x00, 0x01, 0x23, 0xDE, 0xAD, 0xBE, 0xEF],
            Printf ''vcan1:8881:127.0.0.1:9991'' UDP_to_CAN (Frame_text ''0AB#AB''),
            Send_can 6 \<lparr>can_id = 0xAB, can_dlc = 1, data = [0xAB, 0, 0, 0, 0, 0, 0, 0]\<rparr>,
            Printf ''vcan0:8880:127.0.0.1:9990'' CAN_to_UDP (Frame_text ''123#DEADBEEF''),
            Send_udp 5 [0x00, 0x00, 0x01, 0x23, 0xDE, 0xAD, 0xBE, 0xEF],
            Printf ''vcan0:8880:127.0.0.1:9990'' UDP_to_CAN (Frame_text ''0AB#AB''),
            Send_can 3 \<lparr>can_id = 0xAB, can_dlc = 1, data = [0xAB, 0, 0, 0, 0, 0, 0, 0]\<rparr>,
            Printf ''vcan1:8881:127.0.0.1:9991'' CAN_to_UDP (Frame_text ''123#DEADBEEF''),
            Send_udp 8 [0x00, 0x00, 0x01, 0x23, 0xDE, 0xAD, 0xBE, 0xEF],
            Printf ''vcan1:8881:127.0.0.1:9991'' UDP_to_CAN (Frame_text ''0AB#AB''),
            Send_can 6 \<lparr>can_id = 0xAB, can_dlc = 1, data = [0xAB, 0, 0, 0, 0, 0, 0, 0]\<rparr>]"
    by (simp add: readable_four dispatch_call_def events_of_def can_to_udp_sample_any
        udp_to_can_sample_any can_to_udp_recv_error [OF a(2)] udp_to_can_recv_error [OF a(1)]
        str_config_sample str_config_second fds)
  from a 1 2 3 len(1,2) 4 5 6 ok 7 show ?thesis
    by simp
qed

text \<open>
  Claim C8 as stated has an oversized datagram cause only a log line and the skipping of
  the event. On the sample connection a datagram of thirteen bytes is written to the CAN
  socket.
\<close>

theorem oversized_payload_counterexample:
  "udp_to_can Little_endian sample_connection (sample_syscalls\<lparr>udp_recv := Recv_datagram oversized_datagram\<rparr>) =
     Inr [Printf ''vcan0:8880:127.0.0.1:9990'' UDP_to_CAN (Message_truncated 13 12),
          Printf ''vcan0:8880:127.0.0.1:9990'' UDP_to_CAN (Frame_text ''123#0102030405060708''),
          Send_can 3 \<lparr>can_id = 0x123, can_dlc = 8, data = [1, 2, 3, 4, 5, 6, 7, 8]\<rparr>]
   \<and> is_send (Send_can 3 \<lparr>can_id = 0x123, can_dlc = 8, data = [1, 2, 3, 4, 5, 6, 7, 8]\<rparr>)"
  by (simp add: udp_to_can_oversized_sample)

section \<open>Properties of the polling loop\<close>

text \<open>
  Claim C7 (dispatch). With the descriptors set up by the first loop of \<^verbatim>\<open>main\<close>, the
  program does what \<open>main_spec\<close> says: in every round in which \<^verbatim>\<open>poll\<close> succeeds, the
  descriptors whose returned events contain \<^verbatim>\<open>POLLIN\<close> are served in increasing index order,
  descriptor \<open>2k\<close> by \<^verbatim>\<open>can_to_udp\<close> on connection \<open>k\<close> and descriptor \<open>2k + 1\<close> by
  \<^verbatim>\<open>udp_to_can\<close> on connection \<open>k\<close>, and no assertion of the loop fails.
\<close>

theorem main_dispatches_readable_descriptors:
  assumes "connections \<noteq> []" and "length pfds = 2 * length connections"
  shows "main bo connections pfds rounds = main_spec bo connections rounds
         \<and> dispatch_call bo connections sys (2 * k) = can_to_udp bo (connections ! k) (sys (2 * k))
         \<and> dispatch_call bo connections sys (2 * k + 1)
             = udp_to_can bo (connections ! k) (sys (2 * k + 1))
         \<and> sorted_wrt (<) (readable n rs)
         \<and> set (readable n rs) = {i. i < n \<and> rs i AND POLLIN \<noteq> 0}"
  using main_spec_eq [OF assms] dispatch_call_even dispatch_call_odd readable_sorted readable_set
  by blast

theorem main_dispatches_readable_descriptors_witness:
  "[sample_connection] \<noteq> []
   \<and> length [\<lparr>fd = 0, events = 0, revents = 0\<rparr>, \<lparr>fd = 0, events = 0, revents = 0\<rparr>]
       = 2 * length [sample_connection]
   \<and> main Little_endian [sample_connection]
        [\<lparr>fd = 0, events = 0, revents = 0\<rparr>, \<lparr>fd = 0, events = 0, revents = 0\<rparr>]
        [(Poll_revents (\<lambda>i. POLLIN), \<lambda>i. sample_syscalls)] =
       Inr [Printf ''vcan0:8880:127.0.0.1:9990'' CAN_to_UDP (Frame_text ''123#DEADBEEF''),
            Send_udp 5 [0x00, 0x00, 0x01, 0x23, 0xDE, 0xAD, 0xBE, 0xEF],
            Printf ''vcan0:8880:127.0.0.1:9990'' UDP_to_CAN (Frame_text ''0AB#AB''),
            Send_can 3 \<lparr>can_id = 0xAB, can_dlc = 1, data = [0xAB, 0, 0, 0, 0, 0, 0, 0]\<rparr>]"
proof -
  have r: "readable 2 (\<lambda>i. POLLIN) = [0, 1]"
    by (simp add: readable_def POLLIN_def upt_rec)
  have "main_spec Little_endian [sample_connection] [(Poll_revents (\<lambda>i. POLLIN), \<lambda>i. sample_syscalls)] =
       Inr [Printf ''vcan0:8880:127.0.0.1:9990'' CAN_to_UDP (Frame_text ''123#DEADBEEF''),
            Send_udp 5 [0x00, 0x00, 0x01, 0x23, 0xDE, 0xAD, 0xBE, 0xEF],
            Printf ''vcan0:8880:127.0.0.1:9990'' UDP_to_CAN (Frame_text ''0AB#AB''),
            Send_can 3 \<lparr>can_id = 0xAB, can_dlc = 1, data = [0xAB, 0, 0, 0, 0, 0, 0, 0]\<rparr>]"
    by (simp add: dispatch_spec_def r dispatch_call_def can_to_udp_sample udp_to_can_sample and_then_def)
  then show ?thesis
    using main_dispatches_readable_descriptors [of "[sample_connection]"
        "[\<lparr>fd = 0, events = 0, revents = 0\<rparr>, \<lparr>fd = 0, events = 0, revents = 0\<rparr>]"
        Little_endian "[(Poll_revents (\<lambda>i. POLLIN), \<lambda>i. sample_syscalls)]"]
    by simp
qed

text \<open>
  Claim C10 (no dispatch without \<^verbatim>\<open>POLLIN\<close>). At a descriptor whose returned events lack
  \<^verbatim>\<open>POLLIN\<close> the scan goes on to the next descriptor with no call and no event; when no
  descriptor has \<^verbatim>\<open>POLLIN\<close> the scan produces no event at all; the scan depends on the
  returned events through their \<^verbatim>\<open>POLLIN\<close> bit alone, so \<^verbatim>\<open>POLLERR\<close> and \<^verbatim>\<open>POLLHUP\<close>,
  which do not contain that bit, change nothing.
\<close>

theorem no_dispatch_without_POLLIN:
  "(i < length connections * 2 \<and> revents (pfds ! i) AND POLLIN = 0 \<longrightarrow>
      scan bo connections pfds sys i = scan bo connections pfds sys (Suc i))
   \<and> ((\<forall>j < length connections * 2. revents (pfds ! j) AND POLLIN = 0) \<longrightarrow>
      scan bo connections pfds sys 0 = Inr [])
   \<and> (length pfds = length connections * 2 \<longrightarrow>
      scan bo connections pfds sys 0
        = scan bo connections (map (\<lambda>p. p\<lparr>revents := revents p AND POLLIN\<rparr>) pfds) sys 0)
   \<and> POLLERR AND POLLIN = 0 \<and> POLLHUP AND POLLIN = 0 \<and> (POLLERR OR POLLHUP) AND POLLIN = 0"
  using scan_skip [of i connections pfds bo sys] scan_all_skipped [of connections pfds bo sys 0]
    scan_only_POLLIN [of pfds connections bo sys 0] POLLERR_POLLHUP_not_POLLIN
  by simp

theorem no_dispatch_without_POLLIN_witness:
  "(0 :: nat) < length [sample_connection] * 2
   \<and> revents ([\<lparr>fd = 3, events = POLLIN, revents = POLLERR OR POLLHUP\<rparr>,
                 \<lparr>fd = 4, events = POLLIN, revents = POLLHUP\<rparr>] ! 0) AND POLLIN = 0
   \<and> revents ([\<lparr>fd = 3, events = POLLIN, revents = POLLERR OR POLLHUP\<rparr>,
                 \<lparr>fd = 4, events = POLLIN, revents = POLLHUP\<rparr>] ! 1) AND POLLIN = 0
   \<and> length [\<lparr>fd = 3, events = POLLIN, revents = POLLERR OR POLLHUP\<rparr>,
              \<lparr>fd = 4, events = POLLIN, revents = POLLHUP\<rparr>] = length [sample_connection] * 2
   \<and> scan Little_endian [sample_connection]
        [\<lparr>fd = 3, events = POLLIN, revents = POLLERR OR POLLHUP\<rparr>,
         \<lparr>fd = 4, events = POLLIN, revents = POLLHUP\<rparr>] (\<lambda>i. sample_syscalls) 0 = Inr []"
proof -
  have "\<forall>j < length [sample_connection] * 2.
         revents ([\<lparr>fd = 3, events = POLLIN, revents = POLLERR OR POLLHUP\<rparr>,
                   \<lparr>fd = 4, events = POLLIN, revents = POLLHUP\<rparr>] ! j) AND POLLIN = 0"
    by (simp add: less_Suc_eq numeral_2_eq_2 POLLERR_POLLHUP_not_POLLIN)
  then show ?thesis
    using no_dispatch_without_POLLIN [of 0 "[sample_connection]"
        "[\<lparr>fd = 3, events = POLLIN, revents = POLLERR OR POLLHUP\<rparr>,
          \<lparr>fd = 4, events = POLLIN, revents = POLLHUP\<rparr>]" Little_endian "\<lambda>i. sample_syscalls"]
    by simp
qed

end
